theory Spec2Isabelle
  imports Main "HOL-Library.Word"
begin

section \<open>The announcer of the scheduler (scheduler/announcer/announcer.go)\<close>

text \<open>
  The announcer registers the scheduler with the manager, keeps the registration alive and
  uploads two datasets to the trainer on every tick. Its collaborators (manager client,
  trainer client, storage, the readers storage hands out, the stream the trainer hands
  out) are Go interfaces whose implementations are not part of announcer.go. They are
  modelled as values that hold what the collaborator answers and what it has been asked
  so far; every call returns the collaborator updated.
\<close>

subsection \<open>Errors and outcomes\<close>

type_synonym byte = "8 word"

text \<open>
  A Go \<open>error\<close> value: the sentinel \<open>io.EOF\<close>, any other error (by its message), and
  \<open>Wrap prefix err\<close> for \<open>fmt.Errorf(prefix + "%w", err)\<close>. The \<open>nil\<close> error is
  \<open>None\<close> of \<open>error option\<close>.
\<close>

datatype error = EOF | Failure string | Wrap string error

text \<open>
  How a call ends: it panics, it never returns (it waits for an event that does not
  come), or it returns a value.
\<close>

datatype 'a outcome = Panicked string | Blocked | Returned 'a

subsection \<open>Configuration and messages\<close>

text \<open>
  The fields of \<open>config.Config\<close> that announcer.go reads. Durations are nanoseconds
  (\<open>time.Duration\<close>); \<open>Server_AdvertiseIP\<close> holds the text \<open>AdvertiseIP.String()\<close>
  yields.
\<close>

record Config =
  Server_Host :: string
  Server_AdvertiseIP :: string
  Server_AdvertisePort :: int
  Host_IDC :: string
  Host_Location :: string
  Manager_SchedulerClusterID :: nat
  Manager_KeepAlive_Interval :: int
  Trainer_Interval :: int
  Trainer_UploadTimeout :: int

record UpdateSchedulerRequest =
  us_Hostname :: string
  us_Ip :: string
  us_Port :: "32 word"
  us_Idc :: string
  us_Location :: string
  us_SchedulerClusterId :: "64 word"

record KeepAliveRequest =
  ka_Hostname :: string
  ka_Ip :: string
  ka_ClusterId :: "64 word"

text \<open>The two variants of the \<open>Request\<close> field of a \<open>TrainRequest\<close>, each with its dataset chunk.\<close>

datatype TrainRequest_Request = TrainMlpRequest "byte list" | TrainGnnRequest "byte list"

record TrainRequest =
  tr_Hostname :: string
  tr_Ip :: string
  tr_ClusterId :: "64 word"
  tr_Request :: TrainRequest_Request

fun Dataset :: "TrainRequest_Request \<Rightarrow> byte list" where
  "Dataset (TrainMlpRequest bs) = bs"
| "Dataset (TrainGnnRequest bs) = bs"

subsection \<open>The readers of storage\<close>

text \<open>
  An \<open>io.ReadCloser\<close>. What it still has to deliver is a list of segments
  \<open>(bs, err)\<close>: the bytes \<open>bs\<close>, and the error \<open>err\<close> reported by the read that
  delivers the last of them. A read into a buffer of \<open>n\<close> bytes delivers at most \<open>n\<close>
  bytes of the first segment; a reader with no segment left reports \<open>(0, io.EOF)\<close>.
  So \<open>[(data, None)]\<close> is a file holding \<open>data\<close> (full buffers, then a read of zero bytes
  with \<open>io.EOF\<close>), \<open>[(data, Some EOF)]\<close> a reader that reports \<open>io.EOF\<close> together with the
  last bytes, and \<open>[(data, Some (Failure m))]\<close> a reader that fails while delivering \<open>data\<close>;
  several segments are short reads. \<open>Read\<close> returns the bytes \<open>buf[:n]\<close> rather than \<open>n\<close>.
\<close>

record ReadCloser =
  segments :: "(byte list \<times> error option) list"
  rc_closed :: bool

definition Read :: "ReadCloser \<Rightarrow> nat \<Rightarrow> (byte list \<times> error option) \<times> ReadCloser" where
  "Read r n =
     (case segments r of
        [] \<Rightarrow> (([], Some EOF), r)
      | (bs, err) # rest \<Rightarrow>
          if length bs \<le> n then ((bs, err), r\<lparr>segments := rest\<rparr>)
          else ((take n bs, None), r\<lparr>segments := (drop n bs, err) # rest\<rparr>))"

definition Close :: "ReadCloser \<Rightarrow> ReadCloser" where
  "Close r = r\<lparr>rc_closed := True\<rparr>"

text \<open>
  \<open>storage.Storage\<close>: what \<open>OpenDownload\<close> and \<open>OpenNetworkTopology\<close> answer, an error or
  the segments of a fresh reader.
\<close>

record Storage =
  download_files :: "error + (byte list \<times> error option) list"
  network_topology_files :: "error + (byte list \<times> error option) list"

definition open_reader :: "error + (byte list \<times> error option) list \<Rightarrow> error + ReadCloser" where
  "open_reader files =
     (case files of
        Inl err \<Rightarrow> Inl err
      | Inr segs \<Rightarrow> Inr \<lparr>segments = segs, rc_closed = False\<rparr>)"

definition OpenDownload :: "Storage \<Rightarrow> error + ReadCloser" where
  "OpenDownload st = open_reader (download_files st)"

definition OpenNetworkTopology :: "Storage \<Rightarrow> error + ReadCloser" where
  "OpenNetworkTopology st = open_reader (network_topology_files st)"

subsection \<open>The stream to the trainer\<close>

text \<open>
  A \<open>Trainer_TrainClient\<close>: the messages it has accepted, what its next \<open>Send\<close> calls
  answer (\<open>nil\<close> once the list is used up), what \<open>CloseAndRecv\<close> answers and how often
  it was called. A \<open>Send\<close> that fails does not deliver its message.
\<close>

record TrainClient =
  sent :: "TrainRequest list"
  send_results :: "error option list"
  recv_result :: "error option"
  close_calls :: nat

definition Send :: "TrainClient \<Rightarrow> TrainRequest \<Rightarrow> error option \<times> TrainClient" where
  "Send s m =
     (case send_results s of
        [] \<Rightarrow> (None, s\<lparr>sent := sent s @ [m]\<rparr>)
      | None # rest \<Rightarrow> (None, s\<lparr>sent := sent s @ [m], send_results := rest\<rparr>)
      | Some err # rest \<Rightarrow> (Some err, s\<lparr>send_results := rest\<rparr>))"

definition CloseAndRecv :: "TrainClient \<Rightarrow> error option \<times> TrainClient" where
  "CloseAndRecv s = (recv_result s, s\<lparr>close_calls := close_calls s + 1\<rparr>)"

text \<open>
  \<open>trainerclient.V1\<close>: the answer to its \<open>i\<close>-th \<open>Train\<close> call (an error or a fresh
  stream) and the number of calls so far.
\<close>

record TrainerClient =
  Train_result :: "nat \<Rightarrow> error + TrainClient"
  Train_calls :: nat

definition Train :: "TrainerClient \<Rightarrow> (error + TrainClient) \<times> TrainerClient" where
  "Train tc = (Train_result tc (Train_calls tc), tc\<lparr>Train_calls := Train_calls tc + 1\<rparr>)"

subsection \<open>The manager client\<close>

datatype manager_call =
  UpdateSchedulerCall UpdateSchedulerRequest
| KeepAliveCall int KeepAliveRequest

text \<open>
  \<open>managerclient.V2\<close>: what \<open>UpdateScheduler\<close> answers, and the calls it has received, in
  order. \<open>KeepAlive\<close> returns nothing; it is recorded when its goroutine is started.
\<close>

record ManagerClient =
  UpdateScheduler_result :: "error option"
  manager_calls :: "manager_call list"

definition UpdateScheduler :: "ManagerClient \<Rightarrow> UpdateSchedulerRequest \<Rightarrow> error option \<times> ManagerClient" where
  "UpdateScheduler mc req =
     (UpdateScheduler_result mc, mc\<lparr>manager_calls := manager_calls mc @ [UpdateSchedulerCall req]\<rparr>)"

definition KeepAlive :: "ManagerClient \<Rightarrow> int \<Rightarrow> KeepAliveRequest \<Rightarrow> ManagerClient" where
  "KeepAlive mc interval req = mc\<lparr>manager_calls := manager_calls mc @ [KeepAliveCall interval req]\<rparr>"

subsection \<open>The announcer\<close>

text \<open>The channel of the field \<open>done\<close> (here \<open>done_chan\<close>): nothing is ever sent on it, it is only closed.\<close>

datatype chan = ChanOpen | ChanClosed

record announcer =
  config :: Config
  managerClient :: ManagerClient
  trainerClient :: "TrainerClient option"
  storage :: Storage
  done_chan :: chan

definition UploadBufferSize :: nat where
  "UploadBufferSize = 1024 * 1024"

datatype Option = WithTrainerClient TrainerClient

fun apply_option :: "Option \<Rightarrow> announcer \<Rightarrow> announcer" where
  "apply_option (WithTrainerClient client) a = a\<lparr>trainerClient := Some client\<rparr>"

subsection \<open>Upload tasks\<close>

definition mlp_request :: "announcer \<Rightarrow> byte list \<Rightarrow> TrainRequest" where
  "mlp_request a bs =
     \<lparr>tr_Hostname = Server_Host (config a),
      tr_Ip = Server_AdvertiseIP (config a),
      tr_ClusterId = of_nat (Manager_SchedulerClusterID (config a)),
      tr_Request = TrainMlpRequest bs\<rparr>"

definition gnn_request :: "announcer \<Rightarrow> byte list \<Rightarrow> TrainRequest" where
  "gnn_request a bs =
     \<lparr>tr_Hostname = Server_Host (config a),
      tr_Ip = Server_AdvertiseIP (config a),
      tr_ClusterId = of_nat (Manager_SchedulerClusterID (config a)),
      tr_Request = TrainGnnRequest bs\<rparr>"

text \<open>
  One pass through the body of the \<open>for\<close> loop of \<open>uploadDownloadToTrainer\<close> and
  \<open>uploadNetworkTopologyToTrainer\<close> (the two loops differ in the request they build,
  \<open>mk\<close>, only): read, give up on a read error other than \<open>io.EOF\<close>, send what was read,
  give up on a send error, leave the loop on \<open>io.EOF\<close>.
\<close>

datatype flow = Continue | Return "error option"

definition upload_iter ::
  "(byte list \<Rightarrow> TrainRequest) \<Rightarrow> ReadCloser \<Rightarrow> TrainClient \<Rightarrow> flow \<times> ReadCloser \<times> TrainClient" where
  "upload_iter mk r s =
     (case Read r UploadBufferSize of
        ((bs, err), r') \<Rightarrow>
          if err \<noteq> None \<and> err \<noteq> Some EOF then (Return err, r', s)
          else
            (case Send s (mk bs) of
               (Some serr, s') \<Rightarrow> (Return (Some serr), r', s')
             | (None, s') \<Rightarrow>
                 if err = Some EOF then (Return None, r', s') else (Continue, r', s')))"

fun pending :: "ReadCloser \<Rightarrow> nat" where
  "pending r = sum_list (map (\<lambda>(bs, err). Suc (length bs)) (segments r))"

lemma Read_pending:
  assumes "Read r n = ((bs, None), r')" and "0 < n"
  shows "pending r' < pending r"
proof (cases "segments r")
  case Nil
  with assms show ?thesis by (simp add: Read_def)
next
  case (Cons seg rest)
  obtain cs e where seg: "seg = (cs, e)" by (cases seg)
  show ?thesis
  proof (cases "length cs \<le> n")
    case True
    with assms Cons seg show ?thesis by (auto simp: Read_def)
  next
    case False
    with assms Cons seg show ?thesis by (auto simp: Read_def)
  qed
qed

lemma upload_iter_pending:
  assumes "upload_iter mk r s = (Continue, r', s')"
  shows "pending r' < pending r"
proof -
  obtain bs err r1 where rd: "Read r UploadBufferSize = ((bs, err), r1)"
    by (metis prod.exhaust)
  from assms rd have "err = None" and "r' = r1"
    by (auto simp: upload_iter_def split: if_splits prod.splits option.splits)
  with rd show ?thesis
    using Read_pending [of r UploadBufferSize bs r1] by (simp add: UploadBufferSize_def)
qed

function upload_loop ::
  "(byte list \<Rightarrow> TrainRequest) \<Rightarrow> ReadCloser \<Rightarrow> TrainClient \<Rightarrow> error option \<times> ReadCloser \<times> TrainClient" where
  "upload_loop mk r s =
     (case upload_iter mk r s of
        (Return err, r', s') \<Rightarrow> (err, r', s')
      | (Continue, r', s') \<Rightarrow> upload_loop mk r' s')"
  by pat_completeness auto
termination
  by (relation "measure (\<lambda>(mk, r, s). pending r)") (auto dest: upload_iter_pending [OF sym] simp del: pending.simps)

declare upload_loop.simps [simp del]

text \<open>
  The upload tasks. Each returns its error, the reader it opened (as the deferred
  \<open>Close\<close> left it; \<open>None\<close> when the open failed) and the stream as it left it.
\<close>

definition uploadDownloadToTrainer ::
  "announcer \<Rightarrow> TrainClient \<Rightarrow> error option \<times> ReadCloser option \<times> TrainClient" where
  "uploadDownloadToTrainer a stream =
     (case OpenDownload (storage a) of
        Inl err \<Rightarrow> (Some err, None, stream)
      | Inr readCloser \<Rightarrow>
          (case upload_loop (mlp_request a) readCloser stream of
             (err, r', s') \<Rightarrow> (err, Some (Close r'), s')))"

definition uploadNetworkTopologyToTrainer ::
  "announcer \<Rightarrow> TrainClient \<Rightarrow> error option \<times> ReadCloser option \<times> TrainClient" where
  "uploadNetworkTopologyToTrainer a stream =
     (case OpenNetworkTopology (storage a) of
        Inl err \<Rightarrow> (Some err, None, stream)
      | Inr readCloser \<Rightarrow>
          (case upload_loop (gnn_request a) readCloser stream of
             (err, r', s') \<Rightarrow> (err, Some (Close r'), s')))"

subsection \<open>A training round\<close>

text \<open>
  \<open>train\<close> starts the two upload tasks as goroutines of an \<open>errgroup.Group\<close> and waits
  for both. The goroutines share the stream, so what happens depends on how their steps
  interleave. A goroutine is \<open>Ready\<close> (started, nothing done yet), \<open>Running\<close> with its open
  reader (between two passes of the loop), or \<open>Exited\<close> with the error and the reader its
  upload task returned. A step of a goroutine opens the dataset or makes one pass through
  the loop body; reads are local to a task, so only the order of the passes matters.
\<close>

datatype task_id = DownloadTask | NetworkTopologyTask

datatype task = Ready | Running ReadCloser | Exited "error option" "ReadCloser option"

fun task_open :: "announcer \<Rightarrow> task_id \<Rightarrow> error + ReadCloser" where
  "task_open a DownloadTask = OpenDownload (storage a)"
| "task_open a NetworkTopologyTask = OpenNetworkTopology (storage a)"

fun task_request :: "announcer \<Rightarrow> task_id \<Rightarrow> byte list \<Rightarrow> TrainRequest" where
  "task_request a DownloadTask = mlp_request a"
| "task_request a NetworkTopologyTask = gnn_request a"

text \<open>The prefix of the format string the goroutine wraps its task's error with.\<close>

fun task_stage :: "task_id \<Rightarrow> string" where
  "task_stage DownloadTask = ''upload download: ''"
| "task_stage NetworkTopologyTask = ''upload network topology: ''"

fun task_step :: "announcer \<Rightarrow> task_id \<Rightarrow> task \<Rightarrow> TrainClient \<Rightarrow> task \<times> TrainClient" where
  "task_step a t Ready s =
     (case task_open a t of
        Inl err \<Rightarrow> (Exited (Some err) None, s)
      | Inr r \<Rightarrow> (Running r, s))"
| "task_step a t (Running r) s =
     (case upload_iter (task_request a t) r s of
        (Return err, r', s') \<Rightarrow> (Exited err (Some (Close r')), s')
      | (Continue, r', s') \<Rightarrow> (Running r', s'))"
| "task_step a t (Exited err ro) s = (Exited err ro, s)"

text \<open>Letting a goroutine run on its own until its upload task returns.\<close>

fun task_finish :: "announcer \<Rightarrow> task_id \<Rightarrow> task \<Rightarrow> TrainClient \<Rightarrow> task \<times> TrainClient" where
  "task_finish a t Ready s =
     (case task_open a t of
        Inl err \<Rightarrow> (Exited (Some err) None, s)
      | Inr r \<Rightarrow>
          (case upload_loop (task_request a t) r s of
             (err, r', s') \<Rightarrow> (Exited err (Some (Close r')), s')))"
| "task_finish a t (Running r) s =
     (case upload_loop (task_request a t) r s of
        (err, r', s') \<Rightarrow> (Exited err (Some (Close r')), s'))"
| "task_finish a t (Exited err ro) s = (Exited err ro, s)"

text \<open>
  The \<open>errgroup.Group\<close> of a round with its two goroutines and the stream they share:
  \<open>eg_err\<close> is the group's \<open>err\<close>, set once by the first goroutine that returns an
  error; \<open>eg_exits\<close> lists the goroutines in the order in which they returned.
\<close>

record errgroup =
  eg_download :: task
  eg_topology :: task
  eg_stream :: TrainClient
  eg_err :: "error option"
  eg_exits :: "task_id list"

fun eg_task :: "errgroup \<Rightarrow> task_id \<Rightarrow> task" where
  "eg_task g DownloadTask = eg_download g"
| "eg_task g NetworkTopologyTask = eg_topology g"

fun eg_set_task :: "task_id \<Rightarrow> task \<Rightarrow> errgroup \<Rightarrow> errgroup" where
  "eg_set_task DownloadTask tk g = g\<lparr>eg_download := tk\<rparr>"
| "eg_set_task NetworkTopologyTask tk g = g\<lparr>eg_topology := tk\<rparr>"

text \<open>
  The function given to \<open>eg.Go\<close> returns: \<open>nil\<close> when its upload task returned \<open>nil\<close>,
  the task's error wrapped with the stage otherwise; the group keeps the first error.
\<close>

definition eg_return :: "task_id \<Rightarrow> error option \<Rightarrow> errgroup \<Rightarrow> errgroup" where
  "eg_return t err g =
     (case err of
        None \<Rightarrow> g\<lparr>eg_exits := eg_exits g @ [t]\<rparr>
      | Some e \<Rightarrow>
          g\<lparr>eg_exits := eg_exits g @ [t],
            eg_err := (case eg_err g of None \<Rightarrow> Some (Wrap (task_stage t) e) | Some first \<Rightarrow> Some first)\<rparr>)"

definition eg_advance ::
  "(announcer \<Rightarrow> task_id \<Rightarrow> task \<Rightarrow> TrainClient \<Rightarrow> task \<times> TrainClient) \<Rightarrow>
   announcer \<Rightarrow> task_id \<Rightarrow> errgroup \<Rightarrow> errgroup" where
  "eg_advance run a t g =
     (case eg_task g t of
        Exited err ro \<Rightarrow> g
      | _ \<Rightarrow>
          (case run a t (eg_task g t) (eg_stream g) of
             (Exited err ro, s') \<Rightarrow> eg_return t err (eg_set_task t (Exited err ro) (g\<lparr>eg_stream := s'\<rparr>))
           | (tk', s') \<Rightarrow> eg_set_task t tk' (g\<lparr>eg_stream := s'\<rparr>)))"

text \<open>The group as \<open>train\<close> starts it, both goroutines started, on a fresh stream.\<close>

definition eg_start :: "TrainClient \<Rightarrow> errgroup" where
  "eg_start stream =
     \<lparr>eg_download = Ready, eg_topology = Ready, eg_stream = stream, eg_err = None, eg_exits = []\<rparr>"

text \<open>
  \<open>eg.Wait\<close> returns when both goroutines have returned. Until then the scheduler
  lets them take steps in the order \<open>sched\<close> gives (an entry for a goroutine that has
  returned does nothing); when \<open>sched\<close> is used up, what is left of the download task
  runs, then what is left of the network topology task. Every interleaving of the two
  tasks is the run of some \<open>sched\<close>.
\<close>

definition eg_Wait :: "announcer \<Rightarrow> task_id list \<Rightarrow> errgroup \<Rightarrow> errgroup" where
  "eg_Wait a sched g =
     eg_advance task_finish a NetworkTopologyTask
       (eg_advance task_finish a DownloadTask
          (fold (eg_advance task_step a) sched g))"

text \<open>
  \<open>train\<close> returns its error and the group as the round left it (\<open>None\<close> when no stream
  was opened); it panics on a nil \<open>trainerClient\<close>. The deadline of \<open>ctx\<close> shows only in
  what the collaborators answer.
\<close>

definition train :: "announcer \<Rightarrow> task_id list \<Rightarrow> (error option \<times> errgroup option) outcome \<times> announcer" where
  "train a sched =
     (case trainerClient a of
        None \<Rightarrow> (Panicked ''invalid memory address or nil pointer dereference'', a)
      | Some tc \<Rightarrow>
          (case Train tc of
             (res, tc') \<Rightarrow>
               (let a' = a\<lparr>trainerClient := Some tc'\<rparr> in
                case res of
                  Inl err \<Rightarrow> (Returned (Some err, None), a')
                | Inr stream \<Rightarrow>
                    (let g = eg_Wait a' sched (eg_start stream)
                     in case eg_err g of
                          Some err \<Rightarrow> (Returned (Some err, Some g), a')
                        | None \<Rightarrow>
                            (case CloseAndRecv (eg_stream g) of
                               (Some err, s') \<Rightarrow> (Returned (Some err, Some (g\<lparr>eg_stream := s'\<rparr>)), a')
                             | (None, s') \<Rightarrow> (Returned (None, Some (g\<lparr>eg_stream := s'\<rparr>)), a'))))))"

subsection \<open>The loops, Serve, Stop and New\<close>

datatype log_entry = Info string | Error error

text \<open>
  What the \<open>select\<close> of \<open>announceToTrainer\<close> takes each time it is reached: the tick (with
  the schedule of the round that follows), or the closed channel \<open>done\<close>. The list is the
  run of the environment; when it is used up the \<open>select\<close> waits for ever.
\<close>

datatype select_case = Tick "task_id list" | Done

fun announceToTrainer_loop ::
  "announcer \<Rightarrow> select_case list \<Rightarrow> log_entry list \<Rightarrow> (error option) outcome \<times> announcer \<times> log_entry list" where
  "announceToTrainer_loop a [] log = (Blocked, a, log)"
| "announceToTrainer_loop a (Done # evs) log = (Returned None, a, log)"
| "announceToTrainer_loop a (Tick sched # evs) log =
     (case train a sched of
        (Panicked msg, a') \<Rightarrow> (Panicked msg, a', log)
      | (Blocked, a') \<Rightarrow> (Blocked, a', log)
      | (Returned (Some err, g), a') \<Rightarrow> announceToTrainer_loop a' evs (log @ [Error err])
      | (Returned (None, g), a') \<Rightarrow> announceToTrainer_loop a' evs log)"

text \<open>\<open>time.NewTicker\<close> panics on a duration that is not positive.\<close>

definition announceToTrainer ::
  "announcer \<Rightarrow> select_case list \<Rightarrow> log_entry list \<Rightarrow> (error option) outcome \<times> announcer \<times> log_entry list" where
  "announceToTrainer a evs log =
     (if Trainer_Interval (config a) \<le> 0 then (Panicked ''non-positive interval for NewTicker'', a, log)
      else announceToTrainer_loop a evs log)"

definition keepalive_request :: "Config \<Rightarrow> KeepAliveRequest" where
  "keepalive_request cfg =
     \<lparr>ka_Hostname = Server_Host cfg,
      ka_Ip = Server_AdvertiseIP cfg,
      ka_ClusterId = of_nat (Manager_SchedulerClusterID cfg)\<rparr>"

text \<open>
  \<open>announceToManager\<close> starts the goroutine that calls \<open>KeepAlive\<close> and returns \<open>nil\<close>
  without waiting for it.
\<close>

definition announceToManager :: "announcer \<Rightarrow> error option \<times> announcer" where
  "announceToManager a =
     (None,
      a\<lparr>managerClient :=
          KeepAlive (managerClient a) (Manager_KeepAlive_Interval (config a))
            (keepalive_request (config a))\<rparr>)"

definition Serve ::
  "announcer \<Rightarrow> select_case list \<Rightarrow> log_entry list \<Rightarrow> (error option) outcome \<times> announcer \<times> log_entry list" where
  "Serve a evs log =
     (case announceToManager a of
        (Some err, a1) \<Rightarrow> (Returned (Some err), a1, log @ [Info ''announce scheduler to manager''])
      | (None, a1) \<Rightarrow>
          (case trainerClient a1 of
             None \<Rightarrow> (Returned None, a1, log @ [Info ''announce scheduler to manager''])
           | Some tc \<Rightarrow>
               (case announceToTrainer a1 evs
                       (log @ [Info ''announce scheduler to manager'', Info ''announce scheduler to trainer'']) of
                  (Returned (Some err), a2, log2) \<Rightarrow> (Returned (Some err), a2, log2)
                | (Returned None, a2, log2) \<Rightarrow> (Returned None, a2, log2)
                | (Panicked msg, a2, log2) \<Rightarrow> (Panicked msg, a2, log2)
                | (Blocked, a2, log2) \<Rightarrow> (Blocked, a2, log2))))"

text \<open>\<open>close\<close> of a channel panics when the channel is closed already.\<close>

definition close_chan :: "chan \<Rightarrow> string + chan" where
  "close_chan c = (case c of ChanOpen \<Rightarrow> Inr ChanClosed | ChanClosed \<Rightarrow> Inl ''close of closed channel'')"

definition Stop :: "announcer \<Rightarrow> (error option) outcome \<times> announcer" where
  "Stop a =
     (case close_chan (done_chan a) of
        Inl msg \<Rightarrow> (Panicked msg, a)
      | Inr c \<Rightarrow> (Returned None, a\<lparr>done_chan := c\<rparr>))"

definition registration :: "Config \<Rightarrow> UpdateSchedulerRequest" where
  "registration cfg =
     \<lparr>us_Hostname = Server_Host cfg,
      us_Ip = Server_AdvertiseIP cfg,
      us_Port = word_of_int (Server_AdvertisePort cfg),
      us_Idc = Host_IDC cfg,
      us_Location = Host_Location cfg,
      us_SchedulerClusterId = of_nat (Manager_SchedulerClusterID cfg)\<rparr>"

text \<open>
  \<open>New\<close> returns the manager client as the call left it and either the error or the
  announcer (which holds that manager client).
\<close>

definition New :: "Config \<Rightarrow> ManagerClient \<Rightarrow> Storage \<Rightarrow> Option list \<Rightarrow> ManagerClient \<times> (error + announcer)" where
  "New cfg mc st options =
     (let a = fold apply_option options
                \<lparr>config = cfg, managerClient = mc, trainerClient = None, storage = st, done_chan = ChanOpen\<rparr>
      in case UpdateScheduler (managerClient a) (registration (config a)) of
           (Some err, mc') \<Rightarrow> (mc', Inl err)
         | (None, mc') \<Rightarrow> (mc', Inr (a\<lparr>managerClient := mc'\<rparr>)))"

subsection \<open>Datasets in files\<close>

text \<open>
  The segments of a reader over a file that holds \<open>data\<close>, read the way Go's files are:
  every read delivers what fits the buffer with a \<open>nil\<close> error, and the read after the
  last byte delivers nothing with \<open>io.EOF\<close>.
\<close>

definition file_segments :: "byte list \<Rightarrow> (byte list \<times> error option) list" where
  "file_segments data = (if data = [] then [] else [(data, None)])"

text \<open>A stream none of whose \<open>Send\<close> calls fails.\<close>

definition error_free :: "TrainClient \<Rightarrow> bool" where
  "error_free s = list_all (\<lambda>res. res = None) (send_results s)"

text \<open>
  For a dataset of \<open>k * UploadBufferSize + r\<close> bytes: its \<open>k\<close> full chunks, and its
  final partial chunk when \<open>r > 0\<close>.
\<close>

definition full_chunks :: "nat \<Rightarrow> byte list \<Rightarrow> byte list list" where
  "full_chunks k data = map (\<lambda>i. take UploadBufferSize (drop (i * UploadBufferSize) data)) [0..<k]"

definition partial_chunk :: "nat \<Rightarrow> nat \<Rightarrow> byte list \<Rightarrow> byte list list" where
  "partial_chunk k r data = (if 0 < r then [drop (k * UploadBufferSize) data] else [])"

subsection \<open>Datasets read in any way\<close>

text \<open>
  A reader none of whose reads fails: every segment ends with \<open>nil\<close> or \<open>io.EOF\<close>.
\<close>

definition readable :: "(byte list \<times> error option) list \<Rightarrow> bool" where
  "readable segs = list_all (\<lambda>(bs, err). err = None \<or> err = Some EOF) segs"

text \<open>
  The dataset a reader holds: the bytes it delivers up to the read that reports
  \<open>io.EOF\<close> (or fails).
\<close>

fun stream_bytes :: "(byte list \<times> error option) list \<Rightarrow> byte list" where
  "stream_bytes [] = []"
| "stream_bytes ((bs, err) # rest) = (if err = None then bs @ stream_bytes rest else bs)"

text \<open>
  What the successive reads of a reader into a buffer of \<open>UploadBufferSize\<close> bytes
  deliver, one entry per \<open>Read\<close> call, up to and including the first read that reports
  \<open>io.EOF\<close> (or fails).
\<close>

function reads :: "ReadCloser \<Rightarrow> byte list list" where
  "reads r =
     (case Read r UploadBufferSize of
        ((bs, err), r') \<Rightarrow> if err = None then bs # reads r' else [bs])"
  by pat_completeness auto
termination
proof (relation "measure pending")
  show "wf (measure pending)" by simp
next
  fix r :: ReadCloser and x r' bs err
  assume "(x, r') = Read r UploadBufferSize" and "(bs, err) = x" and "err = None"
  then have "Read r UploadBufferSize = ((bs, None), r')" by simp
  from Read_pending [OF this] show "(r', r) \<in> measure pending"
    by (simp add: UploadBufferSize_def del: pending.simps)
qed

declare reads.simps [simp del]

subsection \<open>What a round leaves behind\<close>

text \<open>
  Whether a goroutine has returned, and the error its upload task returned (\<open>None\<close> for
  \<open>nil\<close>, and for a goroutine that has not returned).
\<close>

fun exited :: "task \<Rightarrow> bool" where
  "exited (Exited err ro) = True"
| "exited tk = False"

fun task_err :: "task \<Rightarrow> error option" where
  "task_err (Exited err ro) = err"
| "task_err tk = None"

text \<open>
  The goroutines whose task failed, in the order in which they returned, and the error of
  the first of them as its goroutine wraps it: the first error of the round.
\<close>

definition failed_exits :: "errgroup \<Rightarrow> task_id list" where
  "failed_exits g = filter (\<lambda>t. task_err (eg_task g t) \<noteq> None) (eg_exits g)"

definition first_failure :: "errgroup \<Rightarrow> error option" where
  "first_failure g =
     (case failed_exits g of
        [] \<Rightarrow> None
      | t # ts \<Rightarrow> map_option (Wrap (task_stage t)) (task_err (eg_task g t)))"

text \<open>
  What holds of a group all along a round: no goroutine returns twice, \<open>eg_exits\<close> lists
  exactly those that have returned, and the group's error is the first error so far.
\<close>

definition eg_inv :: "errgroup \<Rightarrow> bool" where
  "eg_inv g =
     (distinct (eg_exits g) \<and> (\<forall>t. (t \<in> set (eg_exits g)) = exited (eg_task g t)) \<and>
      eg_err g = first_failure g)"

subsection \<open>Concrete collaborators\<close>

text \<open>
  A scheduler whose manager accepts the registration, whose trainer opens a stream that
  accepts everything, and whose storage holds three bytes of download records and no
  network topology records.
\<close>

definition example_config :: Config where
  "example_config =
     \<lparr>Server_Host = ''scheduler-0'', Server_AdvertiseIP = ''10.0.0.7'', Server_AdvertisePort = 8002,
      Host_IDC = ''idc-a'', Host_Location = ''rack-1'', Manager_SchedulerClusterID = 1,
      Manager_KeepAlive_Interval = 5000000000, Trainer_Interval = 1000000000,
      Trainer_UploadTimeout = 10000000000\<rparr>"

definition example_manager :: ManagerClient where
  "example_manager = \<lparr>UpdateScheduler_result = None, manager_calls = []\<rparr>"

definition example_stream :: TrainClient where
  "example_stream = \<lparr>sent = [], send_results = [], recv_result = None, close_calls = 0\<rparr>"

definition example_trainer :: TrainerClient where
  "example_trainer = \<lparr>Train_result = (\<lambda>i. Inr example_stream), Train_calls = 0\<rparr>"

definition example_storage :: Storage where
  "example_storage = \<lparr>download_files = Inr [([1, 2, 3], None)], network_topology_files = Inr []\<rparr>"

definition example_announcer :: announcer where
  "example_announcer =
     \<lparr>config = example_config, managerClient = example_manager, trainerClient = Some example_trainer,
      storage = example_storage, done_chan = ChanOpen\<rparr>"

text \<open>A manager that refuses the registration, and a trainer that opens no stream.\<close>

definition failing_manager :: ManagerClient where
  "failing_manager = \<lparr>UpdateScheduler_result = Some (Failure ''manager unavailable''), manager_calls = []\<rparr>"

definition failing_trainer :: TrainerClient where
  "failing_trainer = \<lparr>Train_result = (\<lambda>i. Inl (Failure ''trainer unavailable'')), Train_calls = 0\<rparr>"

definition failing_announcer :: announcer where
  "failing_announcer = example_announcer\<lparr>trainerClient := Some failing_trainer\<rparr>"

text \<open>A dataset of one full chunk and three bytes, in a file.\<close>

definition big_file :: "byte list" where
  "big_file = replicate (1024 * 1024 + 3) 7"

definition big_announcer :: announcer where
  "big_announcer =
     example_announcer\<lparr>storage :=
       \<lparr>download_files = Inr (file_segments big_file),
        network_topology_files = Inr (file_segments big_file)\<rparr>\<rparr>"

text \<open>
  A storage whose readers fail (the download reader at its first read, the network
  topology reader at its second), and a stream whose second \<open>Send\<close> fails.
\<close>

definition read_failure_storage :: Storage where
  "read_failure_storage =
     \<lparr>download_files = Inr [([1, 2, 3], Some (Failure ''disk''))],
      network_topology_files = Inr [([4], None), ([5, 6], Some (Failure ''disk''))]\<rparr>"

definition both_fail_announcer :: announcer where
  "both_fail_announcer = example_announcer\<lparr>storage := read_failure_storage\<rparr>"

definition failing_stream :: TrainClient where
  "failing_stream =
     \<lparr>sent = [], send_results = [None, Some (Failure ''broken pipe'')], recv_result = None,
      close_calls = 0\<rparr>"

text \<open>
  A storage whose readers deliver less than the buffer holds: three bytes of download
  records in reads of one and two bytes, and three bytes of network topology records in
  reads of two and one, the last with \<open>io.EOF\<close>.
\<close>

definition short_read_storage :: Storage where
  "short_read_storage =
     \<lparr>download_files = Inr [([1], None), ([2, 3], None)],
      network_topology_files = Inr [([4, 5], None), ([6], Some EOF)]\<rparr>"

definition short_read_announcer :: announcer where
  "short_read_announcer = example_announcer\<lparr>storage := short_read_storage\<rparr>"

text \<open>
  A trainer whose stream accepts every message and then fails \<open>CloseAndRecv\<close>, and the
  group the round on it ends with when the download task runs first.
\<close>

definition rejecting_trainer :: TrainerClient where
  "rejecting_trainer =
     \<lparr>Train_result = (\<lambda>i. Inr (example_stream\<lparr>recv_result := Some (Failure ''rejected'')\<rparr>)),
      Train_calls = 0\<rparr>"

definition rejected_announcer :: announcer where
  "rejected_announcer = example_announcer\<lparr>trainerClient := Some rejecting_trainer\<rparr>"

definition rejected_round :: errgroup where
  "rejected_round =
     \<lparr>eg_download = Exited None (Some \<lparr>segments = [], rc_closed = True\<rparr>),
      eg_topology = Exited None (Some \<lparr>segments = [], rc_closed = True\<rparr>),
      eg_stream =
        \<lparr>sent =
           [\<lparr>tr_Hostname = ''scheduler-0'', tr_Ip = ''10.0.0.7'', tr_ClusterId = 1,
              tr_Request = TrainMlpRequest [1, 2, 3]\<rparr>,
            \<lparr>tr_Hostname = ''scheduler-0'', tr_Ip = ''10.0.0.7'', tr_ClusterId = 1,
              tr_Request = TrainMlpRequest []\<rparr>,
            \<lparr>tr_Hostname = ''scheduler-0'', tr_Ip = ''10.0.0.7'', tr_ClusterId = 1,
              tr_Request = TrainGnnRequest []\<rparr>],
         send_results = [], recv_result = Some (Failure ''rejected''), close_calls = 1\<rparr>,
      eg_err = None, eg_exits = [DownloadTask, NetworkTopologyTask]\<rparr>"

section \<open>Properties\<close>

subsection \<open>Construction\<close>

lemma fold_apply_option_fields:
  "config (fold apply_option options a) = config a"
  "managerClient (fold apply_option options a) = managerClient a"
  "storage (fold apply_option options a) = storage a"
  "done_chan (fold apply_option options a) = done_chan a"
proof (induction options arbitrary: a)
  case Nil
  { case 1 show ?case by simp }
  { case 2 show ?case by simp }
  { case 3 show ?case by simp }
  { case 4 show ?case by simp }
next
  case (Cons opt options)
  { case 1 show ?case by (cases opt) (simp add: Cons.IH) }
  { case 2 show ?case by (cases opt) (simp add: Cons.IH) }
  { case 3 show ?case by (cases opt) (simp add: Cons.IH) }
  { case 4 show ?case by (cases opt) (simp add: Cons.IH) }
qed

lemma fold_apply_option_trainer:
  "trainerClient (fold apply_option options a) =
     (if options = [] then trainerClient a
      else Some (case last options of WithTrainerClient tc \<Rightarrow> tc))"
proof (induction options arbitrary: a)
  case Nil
  then show ?case by simp
next
  case (Cons opt options)
  then show ?case by (cases opt) auto
qed

lemma train_returns:
  assumes "trainerClient a = Some tc"
  shows "\<exists>err g. train a sched =
           (Returned (err, g), a\<lparr>trainerClient := Some (tc\<lparr>Train_calls := Train_calls tc + 1\<rparr>)\<rparr>)"
  using assms
  by (auto simp: train_def Train_def Let_def split: sum.splits option.splits prod.splits)

lemma train_keeps:
  assumes "train a sched = (res, a')"
  shows "managerClient a' = managerClient a \<and> config a' = config a \<and> storage a' = storage a \<and>
         done_chan a' = done_chan a \<and> (trainerClient a' = None) = (trainerClient a = None)"
proof (cases "trainerClient a")
  case None
  with assms show ?thesis by (simp add: train_def)
next
  case (Some tc)
  from train_returns [OF Some, of sched] assms show ?thesis using Some by auto
qed

lemma loop_keeps:
  "announceToTrainer_loop a evs log = (res, a', log') \<Longrightarrow>
   managerClient a' = managerClient a \<and> config a' = config a \<and> storage a' = storage a \<and>
   done_chan a' = done_chan a"
proof (induction evs arbitrary: a log)
  case Nil
  then show ?case by simp
next
  case (Cons ev evs)
  show ?case
  proof (cases ev)
    case Done
    with Cons.prems show ?thesis by simp
  next
    case (Tick sched)
    obtain r a1 where tr: "train a sched = (r, a1)" by (cases "train a sched")
    note k = train_keeps [OF tr]
    show ?thesis
    proof (cases r)
      case (Panicked msg)
      with Tick tr Cons.prems k show ?thesis by simp
    next
      case Blocked
      with Tick tr Cons.prems k show ?thesis by simp
    next
      case (Returned x)
      obtain e g where x: "x = (e, g)" by (cases x)
      show ?thesis
      proof (cases e)
        case None
        with Tick tr Returned x Cons.prems have "announceToTrainer_loop a1 evs log = (res, a', log')" by simp
        from Cons.IH [OF this] k show ?thesis by simp
      next
        case (Some e')
        with Tick tr Returned x Cons.prems have "announceToTrainer_loop a1 evs (log @ [Error e']) = (res, a', log')" by simp
        from Cons.IH [OF this] k show ?thesis by simp
      qed
    qed
  qed
qed

lemma Serve_manager_calls:
  "manager_calls (managerClient (fst (snd (Serve a evs log)))) =
   manager_calls (managerClient a) @
     [KeepAliveCall (Manager_KeepAlive_Interval (config a)) (keepalive_request (config a))]"
proof -
  let ?a1 = "a\<lparr>managerClient := KeepAlive (managerClient a) (Manager_KeepAlive_Interval (config a)) (keepalive_request (config a))\<rparr>"
  have am: "announceToManager a = (None, ?a1)" by (simp add: announceToManager_def)
  have c1: "manager_calls (managerClient ?a1) = manager_calls (managerClient a) @
     [KeepAliveCall (Manager_KeepAlive_Interval (config a)) (keepalive_request (config a))]"
    by (simp add: KeepAlive_def)
  show ?thesis
  proof (cases "trainerClient ?a1")
    case None
    with am c1 show ?thesis by (simp add: Serve_def)
  next
    case (Some tc)
    let ?log1 = "log @ [Info ''announce scheduler to manager'', Info ''announce scheduler to trainer'']"
    obtain res a2 log2 where at: "announceToTrainer ?a1 evs ?log1 = (res, a2, log2)"
      by (cases "announceToTrainer ?a1 evs ?log1")
    have "managerClient a2 = managerClient ?a1"
    proof (cases "Trainer_Interval (config ?a1) \<le> 0")
      case True
      with at show ?thesis by (simp add: announceToTrainer_def)
    next
      case False
      with at have "announceToTrainer_loop ?a1 evs ?log1 = (res, a2, log2)"
        by (simp add: announceToTrainer_def)
      from loop_keeps [OF this] show ?thesis by simp
    qed
    moreover have "fst (snd (Serve a evs log)) = a2"
      using am Some at by (cases res) (auto simp: Serve_def split: option.splits)
    ultimately show ?thesis using c1 by simp
  qed
qed

text \<open>
  C3. When the manager accepts the registration, \<open>New\<close> makes exactly one call to the
  manager client, the \<open>UpdateScheduler\<close> call with the registration of the
  configuration, and returns a service: with that configuration and storage, an open
  \<open>done\<close> channel, and the trainer client of the last option as it was supplied (no
  call made to it). \<open>New\<close> starts no keepalive; the keepalive that \<open>Serve\<close> starts on the
  returned service comes after the registration in the manager's calls.
\<close>

theorem New_registers_once:
  assumes "UpdateScheduler_result mc = None"
  shows "\<exists>a. New cfg mc st options =
           (mc\<lparr>manager_calls := manager_calls mc @ [UpdateSchedulerCall (registration cfg)]\<rparr>, Inr a) \<and>
         config a = cfg \<and> storage a = st \<and> done_chan a = ChanOpen \<and>
         managerClient a = mc\<lparr>manager_calls := manager_calls mc @ [UpdateSchedulerCall (registration cfg)]\<rparr> \<and>
         trainerClient a =
           (if options = [] then None else Some (case last options of WithTrainerClient tc \<Rightarrow> tc)) \<and>
         manager_calls (managerClient (fst (snd (Serve a evs log)))) =
           manager_calls mc @
             [UpdateSchedulerCall (registration cfg),
              KeepAliveCall (Manager_KeepAlive_Interval cfg) (keepalive_request cfg)]"
proof -
  let ?a0 = "\<lparr>config = cfg, managerClient = mc, trainerClient = None, storage = st, done_chan = ChanOpen\<rparr>"
  let ?mc' = "mc\<lparr>manager_calls := manager_calls mc @ [UpdateSchedulerCall (registration cfg)]\<rparr>"
  let ?a = "(fold apply_option options ?a0)\<lparr>managerClient := ?mc'\<rparr>"
  have n: "New cfg mc st options = (?mc', Inr ?a)"
    using assms by (simp add: New_def Let_def UpdateScheduler_def fold_apply_option_fields)
  have f: "config ?a = cfg" "storage ?a = st" "done_chan ?a = ChanOpen" "managerClient ?a = ?mc'"
    by (simp_all add: fold_apply_option_fields)
  have t: "trainerClient ?a = (if options = [] then None else Some (case last options of WithTrainerClient tc \<Rightarrow> tc))"
    by (simp add: fold_apply_option_trainer)
  have s: "manager_calls (managerClient (fst (snd (Serve ?a evs log)))) =
           manager_calls mc @
             [UpdateSchedulerCall (registration cfg),
              KeepAliveCall (Manager_KeepAlive_Interval cfg) (keepalive_request cfg)]"
    using Serve_manager_calls [of ?a evs log] f by simp
  from n f t s show ?thesis by blast
qed

theorem New_registers_once_witness:
  "UpdateScheduler_result example_manager = None \<and>
   (\<exists>a. New example_config example_manager example_storage [WithTrainerClient example_trainer] =
          (\<lparr>UpdateScheduler_result = None,
            manager_calls = [UpdateSchedulerCall (registration example_config)]\<rparr>, Inr a) \<and>
        trainerClient a = Some example_trainer \<and>
        manager_calls (managerClient (fst (snd (Serve a [Done] [])))) =
          [UpdateSchedulerCall (registration example_config),
           KeepAliveCall 5000000000 (keepalive_request example_config)])"
proof -
  have h: "UpdateScheduler_result example_manager = None"
    by (simp add: example_manager_def)
  from New_registers_once [OF h, of example_config example_storage
      "[WithTrainerClient example_trainer]" "[Done]" "[]"]
  obtain a where
    "New example_config example_manager example_storage [WithTrainerClient example_trainer] =
       (example_manager\<lparr>manager_calls := manager_calls example_manager @ [UpdateSchedulerCall (registration example_config)]\<rparr>, Inr a)"
    "trainerClient a = (if [WithTrainerClient example_trainer] = [] then None
       else Some (case last [WithTrainerClient example_trainer] of WithTrainerClient tc \<Rightarrow> tc))"
    "manager_calls (managerClient (fst (snd (Serve a [Done] [])))) =
       manager_calls example_manager @
         [UpdateSchedulerCall (registration example_config),
          KeepAliveCall (Manager_KeepAlive_Interval example_config) (keepalive_request example_config)]"
    by blast
  then have
    "New example_config example_manager example_storage [WithTrainerClient example_trainer] =
       (\<lparr>UpdateScheduler_result = None,
         manager_calls = [UpdateSchedulerCall (registration example_config)]\<rparr>, Inr a) \<and>
     trainerClient a = Some example_trainer \<and>
     manager_calls (managerClient (fst (snd (Serve a [Done] [])))) =
       [UpdateSchedulerCall (registration example_config),
        KeepAliveCall 5000000000 (keepalive_request example_config)]"
    by (simp add: example_manager_def example_config_def)
  with h show ?thesis by blast
qed

text \<open>
  C4. When the registration call fails, \<open>New\<close> returns that error and no service, and
  the only call it has made is the registration: no keepalive was started and the
  trainer was not called; with no service there is nothing to \<open>Serve\<close>.
\<close>

theorem New_registration_fails:
  "UpdateScheduler_result mc = Some err \<Longrightarrow>
   New cfg mc st options =
     (mc\<lparr>manager_calls := manager_calls mc @ [UpdateSchedulerCall (registration cfg)]\<rparr>, Inl err)"
  by (simp add: New_def Let_def UpdateScheduler_def fold_apply_option_fields)

theorem New_registration_fails_witness:
  "UpdateScheduler_result failing_manager = Some (Failure ''manager unavailable'') \<and>
   New example_config failing_manager example_storage [WithTrainerClient example_trainer] =
     (\<lparr>UpdateScheduler_result = Some (Failure ''manager unavailable''),
       manager_calls = [UpdateSchedulerCall (registration example_config)]\<rparr>,
      Inl (Failure ''manager unavailable''))"
  using New_registration_fails [of failing_manager "Failure ''manager unavailable''" example_config
      example_storage "[WithTrainerClient example_trainer]"]
  by (simp add: failing_manager_def)

subsection \<open>Stop\<close>

text \<open>
  C2, as the code has it. \<open>Stop\<close> closes the channel \<open>done\<close> with no guard: on a service
  whose channel is open the first \<open>Stop\<close> returns \<open>nil\<close> and closes it, and a second
  \<open>Stop\<close> panics.
\<close>

theorem Stop_second_call_panics:
  "done_chan a = ChanOpen \<Longrightarrow>
   Stop a = (Returned None, a\<lparr>done_chan := ChanClosed\<rparr>) \<and>
   fst (Stop (snd (Stop a))) = Panicked ''close of closed channel''"
  by (simp add: Stop_def close_chan_def)

theorem Stop_second_call_panics_witness:
  "done_chan example_announcer = ChanOpen \<and>
   Stop example_announcer = (Returned None, example_announcer\<lparr>done_chan := ChanClosed\<rparr>) \<and>
   fst (Stop (snd (Stop example_announcer))) = Panicked ''close of closed channel''"
proof -
  have h: "done_chan example_announcer = ChanOpen"
    by (simp add: example_announcer_def)
  from Stop_second_call_panics [OF h] h show ?thesis by blast
qed

text \<open>The claim C2 as stated fails: the second \<open>Stop\<close> on a fresh service faults.\<close>

theorem Stop_not_idempotent:
  "fst (Stop example_announcer) = Returned None \<and>
   fst (Stop (snd (Stop example_announcer))) \<noteq> Returned None \<and>
   fst (Stop (snd (Stop example_announcer))) = Panicked ''close of closed channel''"
  by (simp add: Stop_def close_chan_def example_announcer_def)

subsection \<open>The loops\<close>

lemma loop_outcome:
  assumes "trainerClient a = Some tc"
  shows "\<exists>errs.
           announceToTrainer_loop a evs log =
             (if Done \<in> set evs then Returned None else Blocked,
              a\<lparr>trainerClient := Some (tc\<lparr>Train_calls := Train_calls tc + length (takeWhile (\<lambda>e. e \<noteq> Done) evs)\<rparr>)\<rparr>,
              log @ map Error errs)"
  using assms
proof (induction evs arbitrary: a tc log)
  case Nil
  have "a\<lparr>trainerClient := Some (tc\<lparr>Train_calls := Train_calls tc\<rparr>)\<rparr> = a"
    using Nil by simp
  then show ?case by (auto intro: exI [of _ "[]"])
next
  case (Cons ev evs)
  show ?case
  proof (cases ev)
    case Done
    have "a\<lparr>trainerClient := Some (tc\<lparr>Train_calls := Train_calls tc\<rparr>)\<rparr> = a"
      using Cons.prems by simp
    with Done show ?thesis by (auto intro: exI [of _ "[]"])
  next
    case (Tick sched)
    let ?tc1 = "tc\<lparr>Train_calls := Train_calls tc + 1\<rparr>"
    let ?a1 = "a\<lparr>trainerClient := Some ?tc1\<rparr>"
    obtain err g where tr: "train a sched = (Returned (err, g), ?a1)"
      using train_returns [OF Cons.prems] by blast
    have tc1: "trainerClient ?a1 = Some ?tc1" by simp
    show ?thesis
    proof (cases err)
      case None
      from Cons.IH [OF tc1, of log] obtain errs where
        "announceToTrainer_loop ?a1 evs log =
           (if Done \<in> set evs then Returned None else Blocked,
            ?a1\<lparr>trainerClient := Some (?tc1\<lparr>Train_calls := Train_calls ?tc1 + length (takeWhile (\<lambda>e. e \<noteq> Done) evs)\<rparr>)\<rparr>,
            log @ map Error errs)" by blast
      with Tick tr None show ?thesis by (auto intro: exI [of _ errs])
    next
      case (Some e)
      from Cons.IH [OF tc1, of "log @ [Error e]"] obtain errs where
        "announceToTrainer_loop ?a1 evs (log @ [Error e]) =
           (if Done \<in> set evs then Returned None else Blocked,
            ?a1\<lparr>trainerClient := Some (?tc1\<lparr>Train_calls := Train_calls ?tc1 + length (takeWhile (\<lambda>e. e \<noteq> Done) evs)\<rparr>)\<rparr>,
            (log @ [Error e]) @ map Error errs)" by blast
      with Tick tr Some show ?thesis by (auto intro: exI [of _ "e # errs"])
    qed
  qed
qed

text \<open>
  C8. In \<open>announceToTrainer\<close> (with a trainer client and a positive interval) a round
  that fails is logged and the loop goes on with the next event; whatever the rounds
  return, every tick before the shutdown starts a round, and the loop returns, with
  \<open>nil\<close>, exactly when the \<open>select\<close> takes the closed \<open>done\<close> channel.
\<close>

theorem announceToTrainer_swallows_failures:
  assumes "0 < Trainer_Interval (config a)" and "trainerClient a = Some tc"
  shows "(\<exists>errs. announceToTrainer a evs log =
            (if Done \<in> set evs then Returned None else Blocked,
             a\<lparr>trainerClient := Some (tc\<lparr>Train_calls := Train_calls tc + length (takeWhile (\<lambda>e. e \<noteq> Done) evs)\<rparr>)\<rparr>,
             log @ map Error errs)) \<and>
         (\<forall>sched err g a'. train a sched = (Returned (Some err, g), a') \<longrightarrow>
            announceToTrainer a (Tick sched # evs) log = announceToTrainer a' evs (log @ [Error err]))"
proof -
  have "config a' = config a" if "train a sched = (r, a')" for sched r a'
    using train_keeps [OF that] by simp
  then have "\<forall>sched err g a'. train a sched = (Returned (Some err, g), a') \<longrightarrow>
            announceToTrainer a (Tick sched # evs) log = announceToTrainer a' evs (log @ [Error err])"
    using assms(1) by (auto simp: announceToTrainer_def)
  moreover from loop_outcome [OF assms(2), of evs log] assms(1)
  have "\<exists>errs. announceToTrainer a evs log =
            (if Done \<in> set evs then Returned None else Blocked,
             a\<lparr>trainerClient := Some (tc\<lparr>Train_calls := Train_calls tc + length (takeWhile (\<lambda>e. e \<noteq> Done) evs)\<rparr>)\<rparr>,
             log @ map Error errs)"
    by (simp add: announceToTrainer_def)
  ultimately show ?thesis by blast
qed

theorem announceToTrainer_swallows_failures_witness:
  "0 < Trainer_Interval (config failing_announcer) \<and>
   trainerClient failing_announcer = Some failing_trainer \<and>
   train failing_announcer [] =
     (Returned (Some (Failure ''trainer unavailable''), None),
      failing_announcer\<lparr>trainerClient := Some (failing_trainer\<lparr>Train_calls := 1\<rparr>)\<rparr>) \<and>
   announceToTrainer failing_announcer [Tick [], Tick [DownloadTask], Done, Tick []] [] =
     (Returned None,
      failing_announcer\<lparr>trainerClient := Some (failing_trainer\<lparr>Train_calls := 2\<rparr>)\<rparr>,
      [Error (Failure ''trainer unavailable''), Error (Failure ''trainer unavailable'')])"
proof -
  have h1: "0 < Trainer_Interval (config failing_announcer)"
    by (simp add: failing_announcer_def example_announcer_def example_config_def)
  have h2: "trainerClient failing_announcer = Some failing_trainer"
    by (simp add: failing_announcer_def)
  have r: "train failing_announcer sched =
     (Returned (Some (Failure ''trainer unavailable''), None),
      failing_announcer\<lparr>trainerClient := Some (failing_trainer\<lparr>Train_calls := 1\<rparr>)\<rparr>)" for sched
    by (simp add: train_def Train_def failing_announcer_def failing_trainer_def example_announcer_def)
  let ?evs = "[Tick [], Tick [DownloadTask], Done, Tick []]"
  from announceToTrainer_swallows_failures [OF h1 h2, of ?evs "[]"]
  obtain errs where o: "announceToTrainer failing_announcer ?evs [] =
       (Returned None,
        failing_announcer\<lparr>trainerClient := Some (failing_trainer\<lparr>Train_calls := Train_calls failing_trainer + 2\<rparr>)\<rparr>,
        map Error errs)"
    by auto
  have l: "snd (snd (announceToTrainer failing_announcer ?evs [])) =
       [Error (Failure ''trainer unavailable''), Error (Failure ''trainer unavailable'')]"
    by (simp add: announceToTrainer_def train_def Train_def failing_announcer_def failing_trainer_def
        example_announcer_def example_config_def)
  have "Train_calls failing_trainer + 2 = 2" by (simp add: failing_trainer_def)
  with o l have "announceToTrainer failing_announcer ?evs [] =
     (Returned None,
      failing_announcer\<lparr>trainerClient := Some (failing_trainer\<lparr>Train_calls := 2\<rparr>)\<rparr>,
      [Error (Failure ''trainer unavailable''), Error (Failure ''trainer unavailable'')])"
    by simp
  with h1 h2 r [of "[]"] show ?thesis by blast
qed

lemma loop_never_error: "fst (announceToTrainer_loop a evs log) \<noteq> Returned (Some err)"
proof (induction evs arbitrary: a log)
  case Nil
  then show ?case by simp
next
  case (Cons ev evs)
  show ?case
  proof (cases ev)
    case Done
    then show ?thesis by simp
  next
    case (Tick sched)
    obtain res a' where tr: "train a sched = (res, a')" by (cases "train a sched")
    show ?thesis
    proof (cases res)
      case (Panicked msg)
      with Tick tr show ?thesis by simp
    next
      case Blocked
      with Tick tr show ?thesis by simp
    next
      case (Returned r)
      obtain e g where r: "r = (e, g)" by (cases r)
      show ?thesis
      proof (cases e)
        case None
        with Tick tr Returned r show ?thesis using Cons.IH [of a' log] by simp
      next
        case (Some e')
        with Tick tr Returned r show ?thesis using Cons.IH [of a' "log @ [Error e']"] by simp
      qed
    qed
  qed
qed

text \<open>
  C10. \<open>Serve\<close> never returns an error: \<open>announceToManager\<close> returns \<open>nil\<close>, and
  \<open>announceToTrainer\<close> returns nothing but \<open>nil\<close>, so neither of the two error returns
  of \<open>Serve\<close> is ever taken.
\<close>

theorem Serve_never_returns_error:
  "fst (announceToManager a) = None \<and>
   fst (announceToTrainer a evs log) \<noteq> Returned (Some err) \<and>
   fst (Serve a evs log) \<noteq> Returned (Some err)"
proof -
  have m: "fst (announceToManager a) = None"
    by (simp add: announceToManager_def)
  have t: "fst (announceToTrainer a' evs log') \<noteq> Returned (Some err)" for a' log'
    by (simp add: announceToTrainer_def loop_never_error)
  obtain a1 where am: "announceToManager a = (None, a1)"
    by (simp add: announceToManager_def)
  have "fst (Serve a evs log) \<noteq> Returned (Some err)"
  proof (cases "trainerClient a1")
    case None
    with am show ?thesis by (simp add: Serve_def)
  next
    case (Some tc)
    let ?log1 = "log @ [Info ''announce scheduler to manager'', Info ''announce scheduler to trainer'']"
    obtain res a2 log2 where at: "announceToTrainer a1 evs ?log1 = (res, a2, log2)"
      by (cases "announceToTrainer a1 evs ?log1")
    with t [of a1 ?log1] have "res \<noteq> Returned (Some err)" by simp
    with am Some at show ?thesis
      by (cases res) (auto simp: Serve_def split: option.splits)
  qed
  with m t show ?thesis by blast
qed

theorem Serve_never_returns_error_witness:
  "fst (Serve failing_announcer [Tick [], Done] []) \<noteq> Returned (Some (Failure ''trainer unavailable'')) \<and>
   fst (Serve failing_announcer [Tick [], Done] []) = Returned None \<and>
   snd (snd (Serve failing_announcer [Tick [], Done] [])) =
     [Info ''announce scheduler to manager'', Info ''announce scheduler to trainer'',
      Error (Failure ''trainer unavailable'')]"
proof -
  have "Serve failing_announcer [Tick [], Done] [] =
          (Returned None,
           snd (train (snd (announceToManager failing_announcer)) []),
           [Info ''announce scheduler to manager'', Info ''announce scheduler to trainer'',
            Error (Failure ''trainer unavailable'')])"
    by (simp add: Serve_def announceToManager_def announceToTrainer_def train_def Train_def
        failing_announcer_def failing_trainer_def example_announcer_def example_config_def)
  with Serve_never_returns_error [of failing_announcer "[Tick [], Done]" "[]" "Failure ''trainer unavailable''"]
  show ?thesis by simp
qed

subsection \<open>Upload tasks\<close>

lemma Send_error_free:
  "error_free s \<Longrightarrow>
   Send s m = (None, s\<lparr>sent := sent s @ [m], send_results := tl (send_results s)\<rparr>)"
  by (cases "send_results s") (auto simp: Send_def error_free_def split: option.splits)

lemma error_free_tl:
  "error_free s \<Longrightarrow> error_free (s\<lparr>sent := ms, send_results := tl (send_results s)\<rparr>)"
  by (cases "send_results s") (auto simp: error_free_def)

lemma iter_eof:
  assumes "error_free s"
  shows "upload_iter mk \<lparr>segments = [], rc_closed = c\<rparr> s =
    (Return None, \<lparr>segments = [], rc_closed = c\<rparr>,
     s\<lparr>sent := sent s @ [mk []], send_results := tl (send_results s)\<rparr>)"
  using assms by (simp add: upload_iter_def Read_def Send_error_free)

lemma iter_last:
  assumes "error_free s" and "length data \<le> UploadBufferSize"
  shows "upload_iter mk \<lparr>segments = [(data, None)], rc_closed = c\<rparr> s =
    (Continue, \<lparr>segments = [], rc_closed = c\<rparr>,
     s\<lparr>sent := sent s @ [mk data], send_results := tl (send_results s)\<rparr>)"
  using assms by (simp add: upload_iter_def Read_def Send_error_free)

lemma iter_full:
  assumes "error_free s" and "UploadBufferSize < length data"
  shows "upload_iter mk \<lparr>segments = [(data, None)], rc_closed = c\<rparr> s =
    (Continue, \<lparr>segments = [(drop UploadBufferSize data, None)], rc_closed = c\<rparr>,
     s\<lparr>sent := sent s @ [mk (take UploadBufferSize data)], send_results := tl (send_results s)\<rparr>)"
  using assms by (simp add: upload_iter_def Read_def Send_error_free)

lemma loop_eof:
  assumes "error_free s"
  shows "upload_loop mk \<lparr>segments = [], rc_closed = c\<rparr> s =
    (None, \<lparr>segments = [], rc_closed = c\<rparr>,
     s\<lparr>sent := sent s @ [mk []], send_results := tl (send_results s)\<rparr>)"
  by (subst upload_loop.simps) (simp add: iter_eof [OF assms])

lemma loop_last:
  assumes "error_free s" and "length data \<le> UploadBufferSize"
  shows "upload_loop mk \<lparr>segments = [(data, None)], rc_closed = c\<rparr> s =
    (None, \<lparr>segments = [], rc_closed = c\<rparr>,
     s\<lparr>sent := sent s @ [mk data, mk []], send_results := drop 2 (send_results s)\<rparr>)"
proof -
  let ?s1 = "s\<lparr>sent := sent s @ [mk data], send_results := tl (send_results s)\<rparr>"
  have e1: "error_free ?s1" using assms(1) by (rule error_free_tl)
  have "upload_loop mk \<lparr>segments = [(data, None)], rc_closed = c\<rparr> s =
        upload_loop mk \<lparr>segments = [], rc_closed = c\<rparr> ?s1"
    by (subst upload_loop.simps) (simp add: iter_last [OF assms])
  also have "\<dots> = (None, \<lparr>segments = [], rc_closed = c\<rparr>,
     ?s1\<lparr>sent := sent ?s1 @ [mk []], send_results := tl (send_results ?s1)\<rparr>)"
    by (rule loop_eof [OF e1])
  also have "?s1\<lparr>sent := sent ?s1 @ [mk []], send_results := tl (send_results ?s1)\<rparr> =
     s\<lparr>sent := sent s @ [mk data, mk []], send_results := drop 2 (send_results s)\<rparr>"
    by (simp add: drop_Suc numeral_2_eq_2)
  finally show ?thesis .
qed

lemma full_chunks_Suc:
  "full_chunks (Suc k) data = take UploadBufferSize data # full_chunks k (drop UploadBufferSize data)"
  by (simp add: full_chunks_def map_upt_Suc add.commute del: upt_Suc)

lemma partial_chunk_Suc:
  "partial_chunk (Suc k) r data = partial_chunk k r (drop UploadBufferSize data)"
  by (simp add: partial_chunk_def add.commute)

lemma loop_file:
  assumes "error_free s" and "length data = k * UploadBufferSize + r" and "r < UploadBufferSize"
    and "data \<noteq> []"
  shows "upload_loop mk \<lparr>segments = [(data, None)], rc_closed = c\<rparr> s =
    (None, \<lparr>segments = [], rc_closed = c\<rparr>,
     s\<lparr>sent := sent s @ map mk (full_chunks k data @ partial_chunk k r data @ [[]]),
       send_results := drop (length (full_chunks k data @ partial_chunk k r data @ [[]])) (send_results s)\<rparr>)"
  using assms
proof (induction k arbitrary: data s)
  case 0
  then have "length data \<le> UploadBufferSize" and "0 < r" by auto
  with loop_last [OF "0.prems"(1), of data mk c] show ?case
    by (simp add: full_chunks_def partial_chunk_def numeral_2_eq_2)
next
  case (Suc k)
  show ?case
  proof (cases "k = 0 \<and> r = 0")
    case True
    with Suc.prems have len: "length data = UploadBufferSize" by simp
    then have "length data \<le> UploadBufferSize" by simp
    from loop_last [OF Suc.prems(1) this, of mk c] True len show ?thesis
      by (simp add: full_chunks_def partial_chunk_def numeral_2_eq_2)
  next
    case False
    with Suc.prems have big: "UploadBufferSize < length data" by auto
    let ?rest = "drop UploadBufferSize data"
    let ?s1 = "s\<lparr>sent := sent s @ [mk (take UploadBufferSize data)], send_results := tl (send_results s)\<rparr>"
    have e1: "error_free ?s1" using Suc.prems(1) by (rule error_free_tl)
    have l1: "length ?rest = k * UploadBufferSize + r" using Suc.prems(2) by simp
    have n1: "?rest \<noteq> []" using big by simp
    have "upload_loop mk \<lparr>segments = [(data, None)], rc_closed = c\<rparr> s =
          upload_loop mk \<lparr>segments = [(?rest, None)], rc_closed = c\<rparr> ?s1"
      by (subst upload_loop.simps) (simp add: iter_full [OF Suc.prems(1) big])
    also have "\<dots> = (None, \<lparr>segments = [], rc_closed = c\<rparr>,
       ?s1\<lparr>sent := sent ?s1 @ map mk (full_chunks k ?rest @ partial_chunk k r ?rest @ [[]]),
         send_results := drop (length (full_chunks k ?rest @ partial_chunk k r ?rest @ [[]])) (send_results ?s1)\<rparr>)"
      by (rule Suc.IH [OF e1 l1 Suc.prems(3) n1])
    also have "?s1\<lparr>sent := sent ?s1 @ map mk (full_chunks k ?rest @ partial_chunk k r ?rest @ [[]]),
         send_results := drop (length (full_chunks k ?rest @ partial_chunk k r ?rest @ [[]])) (send_results ?s1)\<rparr> =
       s\<lparr>sent := sent s @ map mk (full_chunks (Suc k) data @ partial_chunk (Suc k) r data @ [[]]),
         send_results := drop (length (full_chunks (Suc k) data @ partial_chunk (Suc k) r data @ [[]])) (send_results s)\<rparr>"
      by (simp add: full_chunks_Suc partial_chunk_Suc drop_Suc)
    finally show ?thesis .
  qed
qed


lemma loop_file_segments:
  assumes "error_free s" and "length data = k * UploadBufferSize + r" and "r < UploadBufferSize"
  shows "upload_loop mk \<lparr>segments = file_segments data, rc_closed = c\<rparr> s =
    (None, \<lparr>segments = [], rc_closed = c\<rparr>,
     s\<lparr>sent := sent s @ map mk (full_chunks k data @ partial_chunk k r data @ [[]]),
       send_results := drop (length (full_chunks k data @ partial_chunk k r data @ [[]])) (send_results s)\<rparr>)"
proof (cases "data = []")
  case True
  with assms(2) have "k * UploadBufferSize + r = 0" by simp
  then have "r = 0" and "k = 0 \<or> UploadBufferSize = 0" by auto
  then have "k = 0" by (simp add: UploadBufferSize_def)
  with True \<open>r = 0\<close> loop_eof [OF assms(1), of mk c] show ?thesis
    by (simp add: file_segments_def full_chunks_def partial_chunk_def drop_Suc)
next
  case False
  with loop_file [OF assms False, of mk c] show ?thesis
    by (simp add: file_segments_def)
qed

lemma length_full_chunks: "length (full_chunks k data) = k"
  by (simp add: full_chunks_def)

lemma full_chunks_full:
  assumes "k * UploadBufferSize \<le> length data" and "c \<in> set (full_chunks k data)"
  shows "length c = UploadBufferSize"
proof -
  from assms(2) obtain i where i: "i < k" and c: "c = take UploadBufferSize (drop (i * UploadBufferSize) data)"
    by (auto simp: full_chunks_def)
  from i have "Suc i * UploadBufferSize \<le> k * UploadBufferSize"
    by (intro mult_le_mono1) simp
  with assms(1) have "i * UploadBufferSize + UploadBufferSize \<le> length data" by simp
  with c show ?thesis by simp
qed

lemma concat_full_chunks:
  "k * UploadBufferSize \<le> length data \<Longrightarrow> concat (full_chunks k data) = take (k * UploadBufferSize) data"
proof (induction k arbitrary: data)
  case 0
  then show ?case by (simp add: full_chunks_def)
next
  case (Suc k)
  then have "k * UploadBufferSize \<le> length (drop UploadBufferSize data)" by simp
  from Suc.IH [OF this] show ?case
    by (simp add: full_chunks_Suc take_add [symmetric] add.commute)
qed

lemma concat_chunks:
  assumes "length data = k * UploadBufferSize + r"
  shows "concat (full_chunks k data @ partial_chunk k r data) = data"
proof -
  have "concat (full_chunks k data) = take (k * UploadBufferSize) data"
    using assms by (intro concat_full_chunks) simp
  moreover have "concat (partial_chunk k r data) = drop (k * UploadBufferSize) data"
    using assms by (simp add: partial_chunk_def)
  ultimately show ?thesis by simp
qed

lemma iter_eof_last:
  assumes "error_free s" and "length data \<le> UploadBufferSize"
  shows "upload_iter mk \<lparr>segments = [(data, Some EOF)], rc_closed = c\<rparr> s =
    (Return None, \<lparr>segments = [], rc_closed = c\<rparr>,
     s\<lparr>sent := sent s @ [mk data], send_results := tl (send_results s)\<rparr>)"
  using assms by (simp add: upload_iter_def Read_def Send_error_free)

lemma iter_eof_full:
  assumes "error_free s" and "UploadBufferSize < length data"
  shows "upload_iter mk \<lparr>segments = [(data, Some EOF)], rc_closed = c\<rparr> s =
    (Continue, \<lparr>segments = [(drop UploadBufferSize data, Some EOF)], rc_closed = c\<rparr>,
     s\<lparr>sent := sent s @ [mk (take UploadBufferSize data)], send_results := tl (send_results s)\<rparr>)"
  using assms by (simp add: upload_iter_def Read_def Send_error_free)

lemma loop_eof_last:
  assumes "error_free s" and "length data \<le> UploadBufferSize"
  shows "upload_loop mk \<lparr>segments = [(data, Some EOF)], rc_closed = c\<rparr> s =
    (None, \<lparr>segments = [], rc_closed = c\<rparr>,
     s\<lparr>sent := sent s @ [mk data], send_results := drop 1 (send_results s)\<rparr>)"
  by (subst upload_loop.simps) (simp add: iter_eof_last [OF assms] drop_Suc)

lemma loop_eof_with_data:
  assumes "error_free s" and "length data = k * UploadBufferSize + r" and "r < UploadBufferSize"
    and "data \<noteq> []"
  shows "upload_loop mk \<lparr>segments = [(data, Some EOF)], rc_closed = c\<rparr> s =
    (None, \<lparr>segments = [], rc_closed = c\<rparr>,
     s\<lparr>sent := sent s @ map mk (full_chunks k data @ partial_chunk k r data),
       send_results := drop (length (full_chunks k data @ partial_chunk k r data)) (send_results s)\<rparr>)"
  using assms
proof (induction k arbitrary: data s)
  case 0
  then have "length data \<le> UploadBufferSize" and "0 < r" by auto
  with loop_eof_last [OF "0.prems"(1), of data mk c] show ?case
    by (simp add: full_chunks_def partial_chunk_def)
next
  case (Suc k)
  show ?case
  proof (cases "k = 0 \<and> r = 0")
    case True
    with Suc.prems have len: "length data = UploadBufferSize" by simp
    then have "length data \<le> UploadBufferSize" by simp
    from loop_eof_last [OF Suc.prems(1) this, of mk c] True len show ?thesis
      by (simp add: full_chunks_def partial_chunk_def)
  next
    case False
    with Suc.prems have big: "UploadBufferSize < length data" by auto
    let ?rest = "drop UploadBufferSize data"
    let ?s1 = "s\<lparr>sent := sent s @ [mk (take UploadBufferSize data)], send_results := tl (send_results s)\<rparr>"
    have e1: "error_free ?s1" using Suc.prems(1) by (rule error_free_tl)
    have l1: "length ?rest = k * UploadBufferSize + r" using Suc.prems(2) by simp
    have n1: "?rest \<noteq> []" using big by simp
    have "upload_loop mk \<lparr>segments = [(data, Some EOF)], rc_closed = c\<rparr> s =
          upload_loop mk \<lparr>segments = [(?rest, Some EOF)], rc_closed = c\<rparr> ?s1"
      by (subst upload_loop.simps) (simp add: iter_eof_full [OF Suc.prems(1) big])
    also have "\<dots> = (None, \<lparr>segments = [], rc_closed = c\<rparr>,
       ?s1\<lparr>sent := sent ?s1 @ map mk (full_chunks k ?rest @ partial_chunk k r ?rest),
         send_results := drop (length (full_chunks k ?rest @ partial_chunk k r ?rest)) (send_results ?s1)\<rparr>)"
      by (rule Suc.IH [OF e1 l1 Suc.prems(3) n1])
    also have "?s1\<lparr>sent := sent ?s1 @ map mk (full_chunks k ?rest @ partial_chunk k r ?rest),
         send_results := drop (length (full_chunks k ?rest @ partial_chunk k r ?rest)) (send_results ?s1)\<rparr> =
       s\<lparr>sent := sent s @ map mk (full_chunks (Suc k) data @ partial_chunk (Suc k) r data),
         send_results := drop (length (full_chunks (Suc k) data @ partial_chunk (Suc k) r data)) (send_results s)\<rparr>"
      by (simp add: full_chunks_Suc partial_chunk_Suc drop_Suc)
    finally show ?thesis .
  qed
qed

lemma Read_readable:
  assumes "readable (segments r)" and "Read r n = ((bs, err), r')"
  shows "(err = None \<or> err = Some EOF) \<and> readable (segments r')"
proof (cases "segments r")
  case Nil
  with assms show ?thesis by (auto simp: Read_def readable_def)
next
  case (Cons seg rest)
  obtain cs e where seg: "seg = (cs, e)" by (cases seg)
  with assms Cons show ?thesis
    by (cases "length cs \<le> n") (auto simp: Read_def readable_def)
qed

lemma loop_reads:
  "error_free s \<Longrightarrow> readable (segments r) \<Longrightarrow>
   \<exists>r'. upload_loop mk r s =
     (None, r',
      s\<lparr>sent := sent s @ map mk (reads r),
        send_results := drop (length (reads r)) (send_results s)\<rparr>)"
proof (induction r arbitrary: s rule: reads.induct)
  case (1 r)
  obtain bs err r1 where rd: "Read r UploadBufferSize = ((bs, err), r1)"
    by (metis prod.exhaust)
  note rr = Read_readable [OF "1.prems"(2) rd]
  let ?s1 = "s\<lparr>sent := sent s @ [mk bs], send_results := tl (send_results s)\<rparr>"
  have e1: "error_free ?s1" using "1.prems"(1) by (rule error_free_tl)
  show ?case
  proof (cases err)
    case None
    have it: "upload_iter mk r s = (Continue, r1, ?s1)"
      using rd None by (simp add: upload_iter_def Send_error_free [OF "1.prems"(1)])
    have rs: "reads r = bs # reads r1"
      using rd None by (subst reads.simps) simp
    from "1.IH" [OF rd [symmetric] refl None e1] rr
    obtain r' where "upload_loop mk r1 ?s1 =
      (None, r', ?s1\<lparr>sent := sent ?s1 @ map mk (reads r1),
                       send_results := drop (length (reads r1)) (send_results ?s1)\<rparr>)"
      by blast
    then have "upload_loop mk r s =
      (None, r', ?s1\<lparr>sent := sent ?s1 @ map mk (reads r1),
                       send_results := drop (length (reads r1)) (send_results ?s1)\<rparr>)"
      by (subst upload_loop.simps) (simp add: it)
    then show ?thesis by (simp add: rs drop_Suc)
  next
    case (Some e)
    with rr have eof: "err = Some EOF" by simp
    have it: "upload_iter mk r s = (Return None, r1, ?s1)"
      using rd eof by (simp add: upload_iter_def Send_error_free [OF "1.prems"(1)])
    have rs: "reads r = [bs]"
      using rd eof by (subst reads.simps) simp
    have "upload_loop mk r s = (None, r1, ?s1)"
      by (subst upload_loop.simps) (simp add: it)
    then show ?thesis by (simp add: rs drop_Suc)
  qed
qed

lemma concat_reads: "concat (reads r) = stream_bytes (segments r)"
proof (induction r rule: reads.induct)
  case (1 r)
  show ?case
  proof (cases "segments r")
    case Nil
    then show ?thesis by (subst reads.simps) (simp add: Read_def)
  next
    case (Cons seg rest)
    obtain cs e where seg: "seg = (cs, e)" by (cases seg)
    show ?thesis
    proof (cases "length cs \<le> UploadBufferSize")
      case True
      with Cons seg have rd: "Read r UploadBufferSize = ((cs, e), r\<lparr>segments := rest\<rparr>)"
        by (simp add: Read_def)
      show ?thesis
      proof (cases e)
        case None
        from "1.IH" [OF rd [symmetric] refl None] rd None Cons seg show ?thesis
          by (subst reads.simps) simp
      next
        case (Some x)
        with rd Cons seg show ?thesis by (subst reads.simps) simp
      qed
    next
      case False
      with Cons seg have rd: "Read r UploadBufferSize =
          ((take UploadBufferSize cs, None), r\<lparr>segments := (drop UploadBufferSize cs, e) # rest\<rparr>)"
        by (simp add: Read_def)
      from "1.IH" [OF rd [symmetric] refl refl] rd Cons seg show ?thesis
        by (subst reads.simps) (simp add: append_assoc [symmetric] del: append_assoc)
    qed
  qed
qed

lemma length_reads: "c \<in> set (reads r) \<Longrightarrow> length c \<le> UploadBufferSize"
proof (induction r rule: reads.induct)
  case (1 r)
  obtain bs err r1 where rd: "Read r UploadBufferSize = ((bs, err), r1)"
    by (metis prod.exhaust)
  have lb: "length bs \<le> UploadBufferSize"
    using rd by (auto simp: Read_def split: list.splits if_splits)
  show ?case
  proof (cases err)
    case None
    with rd have "reads r = bs # reads r1" by (subst reads.simps) simp
    with "1.prems" "1.IH" [OF rd [symmetric] refl None] lb show ?thesis by auto
  next
    case (Some e)
    with rd have "reads r = [bs]" by (subst reads.simps) simp
    with "1.prems" lb show ?thesis by simp
  qed
qed

lemma reads_empty: "reads \<lparr>segments = [], rc_closed = c\<rparr> = [[]]"
  by (subst reads.simps) (simp add: Read_def)

lemma reads_last:
  "length data \<le> UploadBufferSize \<Longrightarrow>
   reads \<lparr>segments = [(data, None)], rc_closed = c\<rparr> = [data, []]"
  by (subst reads.simps) (simp add: Read_def reads_empty)

lemma reads_file:
  assumes "length data = k * UploadBufferSize + r" and "r < UploadBufferSize" and "data \<noteq> []"
  shows "reads \<lparr>segments = [(data, None)], rc_closed = c\<rparr> =
           full_chunks k data @ partial_chunk k r data @ [[]]"
  using assms
proof (induction k arbitrary: data)
  case 0
  then have "length data \<le> UploadBufferSize" and "0 < r" by auto
  with reads_last [of data c] show ?case by (simp add: full_chunks_def partial_chunk_def)
next
  case (Suc k)
  show ?case
  proof (cases "k = 0 \<and> r = 0")
    case True
    with Suc.prems have len: "length data = UploadBufferSize" by simp
    with reads_last [of data c] True show ?thesis
      by (simp add: full_chunks_def partial_chunk_def)
  next
    case False
    with Suc.prems have big: "UploadBufferSize < length data" by auto
    let ?rest = "drop UploadBufferSize data"
    have l1: "length ?rest = k * UploadBufferSize + r" using Suc.prems(1) by simp
    have n1: "?rest \<noteq> []" using big by simp
    have "reads \<lparr>segments = [(data, None)], rc_closed = c\<rparr> =
          take UploadBufferSize data # reads \<lparr>segments = [(?rest, None)], rc_closed = c\<rparr>"
      using big by (subst reads.simps) (simp add: Read_def)
    with Suc.IH [OF l1 Suc.prems(2) n1] show ?thesis
      by (simp add: full_chunks_Suc partial_chunk_Suc)
  qed
qed

lemma reads_file_segments:
  assumes "length data = k * UploadBufferSize + r" and "r < UploadBufferSize"
  shows "reads \<lparr>segments = file_segments data, rc_closed = c\<rparr> =
           full_chunks k data @ partial_chunk k r data @ [[]]"
proof (cases "data = []")
  case True
  with assms(1) have "k * UploadBufferSize + r = 0" by simp
  then have "r = 0" and "k = 0 \<or> UploadBufferSize = 0" by auto
  then have "k = 0" by (simp add: UploadBufferSize_def)
  with True \<open>r = 0\<close> show ?thesis
    by (simp add: file_segments_def reads_empty full_chunks_def partial_chunk_def)
next
  case False
  with reads_file [OF assms False, of c] show ?thesis by (simp add: file_segments_def)
qed

lemma reads_eof_last:
  "length data \<le> UploadBufferSize \<Longrightarrow>
   reads \<lparr>segments = [(data, Some EOF)], rc_closed = c\<rparr> = [data]"
  by (subst reads.simps) (simp add: Read_def)

lemma reads_eof_with_data:
  assumes "length data = k * UploadBufferSize + r" and "r < UploadBufferSize" and "data \<noteq> []"
  shows "reads \<lparr>segments = [(data, Some EOF)], rc_closed = c\<rparr> =
           full_chunks k data @ partial_chunk k r data"
  using assms
proof (induction k arbitrary: data)
  case 0
  then have "length data \<le> UploadBufferSize" and "0 < r" by auto
  with reads_eof_last [of data c] show ?case by (simp add: full_chunks_def partial_chunk_def)
next
  case (Suc k)
  show ?case
  proof (cases "k = 0 \<and> r = 0")
    case True
    with Suc.prems have len: "length data = UploadBufferSize" by simp
    with reads_eof_last [of data c] True show ?thesis
      by (simp add: full_chunks_def partial_chunk_def)
  next
    case False
    with Suc.prems have big: "UploadBufferSize < length data" by auto
    let ?rest = "drop UploadBufferSize data"
    have l1: "length ?rest = k * UploadBufferSize + r" using Suc.prems(1) by simp
    have n1: "?rest \<noteq> []" using big by simp
    have "reads \<lparr>segments = [(data, Some EOF)], rc_closed = c\<rparr> =
          take UploadBufferSize data # reads \<lparr>segments = [(?rest, Some EOF)], rc_closed = c\<rparr>"
      using big by (subst reads.simps) (simp add: Read_def)
    with Suc.IH [OF l1 Suc.prems(2) n1] show ?thesis
      by (simp add: full_chunks_Suc partial_chunk_Suc)
  qed
qed

lemma reads_short:
  "reads \<lparr>segments = [([1], None), ([2, 3], None)], rc_closed = False\<rparr> = [[1], [2, 3], []]"
  "reads \<lparr>segments = [([4, 5], None), ([6], Some EOF)], rc_closed = False\<rparr> = [[4, 5], [6]]"
  by (simp_all add: reads.simps Read_def UploadBufferSize_def)

text \<open>
  C1, as the code has it. An upload task sends one message per read, the read that
  reports the end of the stream included. On every dataset whose reads do not fail and
  every stream whose sends do not fail, the task returns \<open>nil\<close>, closes the reader, and
  sends, in order, one message for each read with what that read delivered; the payloads
  are at most \<open>UploadBufferSize\<close> bytes long and put together they are the dataset, so
  nothing is sent twice. For a dataset of \<open>k * UploadBufferSize + r\<close> bytes
  (\<open>r < UploadBufferSize\<close>) whose reads fill the buffer, these are the \<open>k\<close> full chunks
  and the partial chunk of \<open>r\<close> bytes when \<open>r > 0\<close>, followed by one message with an
  empty payload when the dataset is in a file (whose reader reports the end of the stream
  by a read of no bytes), and by nothing when the reader reports the end together with the
  last bytes of a dataset that is not empty. A reader that delivers less than the buffer
  holds gets one message for each of its shorter reads.
\<close>

theorem upload_sends_chunks_then_empty:
  assumes "length data = k * UploadBufferSize + r" and "r < UploadBufferSize" and "error_free s"
  shows
    "(download_files (storage a) = Inr segs \<and> readable segs \<longrightarrow>
        (\<exists>rd s'. uploadDownloadToTrainer a s = (None, Some rd, s') \<and> rc_closed rd \<and>
           sent s' = sent s @ map (mlp_request a) (reads \<lparr>segments = segs, rc_closed = False\<rparr>))) \<and>
     (network_topology_files (storage a) = Inr segs \<and> readable segs \<longrightarrow>
        (\<exists>rd s'. uploadNetworkTopologyToTrainer a s = (None, Some rd, s') \<and> rc_closed rd \<and>
           sent s' = sent s @ map (gnn_request a) (reads \<lparr>segments = segs, rc_closed = False\<rparr>))) \<and>
     concat (reads \<lparr>segments = segs, rc_closed = False\<rparr>) = stream_bytes segs \<and>
     (\<forall>c \<in> set (reads \<lparr>segments = segs, rc_closed = False\<rparr>). length c \<le> UploadBufferSize) \<and>
     reads \<lparr>segments = file_segments data, rc_closed = False\<rparr> =
       full_chunks k data @ partial_chunk k r data @ [[]] \<and>
     (data \<noteq> [] \<longrightarrow>
        reads \<lparr>segments = [(data, Some EOF)], rc_closed = False\<rparr> =
          full_chunks k data @ partial_chunk k r data) \<and>
     (download_files (storage a) = Inr (file_segments data) \<longrightarrow>
        uploadDownloadToTrainer a s =
          (None, Some \<lparr>segments = [], rc_closed = True\<rparr>,
           s\<lparr>sent := sent s @ map (mlp_request a) (full_chunks k data @ partial_chunk k r data @ [[]]),
             send_results := drop (k + length (partial_chunk k r data) + 1) (send_results s)\<rparr>)) \<and>
     (network_topology_files (storage a) = Inr (file_segments data) \<longrightarrow>
        uploadNetworkTopologyToTrainer a s =
          (None, Some \<lparr>segments = [], rc_closed = True\<rparr>,
           s\<lparr>sent := sent s @ map (gnn_request a) (full_chunks k data @ partial_chunk k r data @ [[]]),
             send_results := drop (k + length (partial_chunk k r data) + 1) (send_results s)\<rparr>)) \<and>
     (data \<noteq> [] \<and> download_files (storage a) = Inr [(data, Some EOF)] \<longrightarrow>
        uploadDownloadToTrainer a s =
          (None, Some \<lparr>segments = [], rc_closed = True\<rparr>,
           s\<lparr>sent := sent s @ map (mlp_request a) (full_chunks k data @ partial_chunk k r data),
             send_results := drop (k + length (partial_chunk k r data)) (send_results s)\<rparr>)) \<and>
     (data \<noteq> [] \<and> network_topology_files (storage a) = Inr [(data, Some EOF)] \<longrightarrow>
        uploadNetworkTopologyToTrainer a s =
          (None, Some \<lparr>segments = [], rc_closed = True\<rparr>,
           s\<lparr>sent := sent s @ map (gnn_request a) (full_chunks k data @ partial_chunk k r data),
             send_results := drop (k + length (partial_chunk k r data)) (send_results s)\<rparr>)) \<and>
     length (full_chunks k data) = k \<and>
     (\<forall>c \<in> set (full_chunks k data). length c = UploadBufferSize) \<and>
     partial_chunk k r data = (if 0 < r then [drop (k * UploadBufferSize) data] else []) \<and>
     length (drop (k * UploadBufferSize) data) = r \<and>
     concat (full_chunks k data @ partial_chunk k r data) = data"
proof -
  have gd: "download_files (storage a) = Inr segs \<and> readable segs \<longrightarrow>
        (\<exists>rd s'. uploadDownloadToTrainer a s = (None, Some rd, s') \<and> rc_closed rd \<and>
           sent s' = sent s @ map (mlp_request a) (reads \<lparr>segments = segs, rc_closed = False\<rparr>))"
  proof
    assume h: "download_files (storage a) = Inr segs \<and> readable segs"
    then have "readable (segments \<lparr>segments = segs, rc_closed = False\<rparr>)" by simp
    from loop_reads [OF assms(3) this, of "mlp_request a"] h
    show "\<exists>rd s'. uploadDownloadToTrainer a s = (None, Some rd, s') \<and> rc_closed rd \<and>
           sent s' = sent s @ map (mlp_request a) (reads \<lparr>segments = segs, rc_closed = False\<rparr>)"
      by (auto simp: uploadDownloadToTrainer_def OpenDownload_def open_reader_def Close_def)
  qed
  have gn: "network_topology_files (storage a) = Inr segs \<and> readable segs \<longrightarrow>
        (\<exists>rd s'. uploadNetworkTopologyToTrainer a s = (None, Some rd, s') \<and> rc_closed rd \<and>
           sent s' = sent s @ map (gnn_request a) (reads \<lparr>segments = segs, rc_closed = False\<rparr>))"
  proof
    assume h: "network_topology_files (storage a) = Inr segs \<and> readable segs"
    then have "readable (segments \<lparr>segments = segs, rc_closed = False\<rparr>)" by simp
    from loop_reads [OF assms(3) this, of "gnn_request a"] h
    show "\<exists>rd s'. uploadNetworkTopologyToTrainer a s = (None, Some rd, s') \<and> rc_closed rd \<and>
           sent s' = sent s @ map (gnn_request a) (reads \<lparr>segments = segs, rc_closed = False\<rparr>)"
      by (auto simp: uploadNetworkTopologyToTrainer_def OpenNetworkTopology_def open_reader_def Close_def)
  qed
  have gc: "concat (reads \<lparr>segments = segs, rc_closed = False\<rparr>) = stream_bytes segs"
    using concat_reads [of "\<lparr>segments = segs, rc_closed = False\<rparr>"] by simp
  have gl: "\<forall>c \<in> set (reads \<lparr>segments = segs, rc_closed = False\<rparr>). length c \<le> UploadBufferSize"
    by (auto dest: length_reads)
  note rf = reads_file_segments [OF assms(1) assms(2), of False]
  have re: "data \<noteq> [] \<longrightarrow>
        reads \<lparr>segments = [(data, Some EOF)], rc_closed = False\<rparr> =
          full_chunks k data @ partial_chunk k r data"
    using reads_eof_with_data [OF assms(1) assms(2), of False] by blast
  note l = loop_file_segments [OF assms(3) assms(1) assms(2)]
  note le = loop_eof_with_data [OF assms(3) assms(1) assms(2)]
  have de: "data \<noteq> [] \<and> download_files (storage a) = Inr [(data, Some EOF)] \<longrightarrow>
        uploadDownloadToTrainer a s =
          (None, Some \<lparr>segments = [], rc_closed = True\<rparr>,
           s\<lparr>sent := sent s @ map (mlp_request a) (full_chunks k data @ partial_chunk k r data),
             send_results := drop (k + length (partial_chunk k r data)) (send_results s)\<rparr>)"
    using le [of "mlp_request a" False]
    by (simp add: uploadDownloadToTrainer_def OpenDownload_def open_reader_def Close_def length_full_chunks)
  have ne: "data \<noteq> [] \<and> network_topology_files (storage a) = Inr [(data, Some EOF)] \<longrightarrow>
        uploadNetworkTopologyToTrainer a s =
          (None, Some \<lparr>segments = [], rc_closed = True\<rparr>,
           s\<lparr>sent := sent s @ map (gnn_request a) (full_chunks k data @ partial_chunk k r data),
             send_results := drop (k + length (partial_chunk k r data)) (send_results s)\<rparr>)"
    using le [of "gnn_request a" False]
    by (simp add: uploadNetworkTopologyToTrainer_def OpenNetworkTopology_def open_reader_def Close_def length_full_chunks)
  have d: "download_files (storage a) = Inr (file_segments data) \<longrightarrow>
        uploadDownloadToTrainer a s =
          (None, Some \<lparr>segments = [], rc_closed = True\<rparr>,
           s\<lparr>sent := sent s @ map (mlp_request a) (full_chunks k data @ partial_chunk k r data @ [[]]),
             send_results := drop (k + length (partial_chunk k r data) + 1) (send_results s)\<rparr>)"
    using l [of "mlp_request a" False]
    by (simp add: uploadDownloadToTrainer_def OpenDownload_def open_reader_def Close_def length_full_chunks)
  have n: "network_topology_files (storage a) = Inr (file_segments data) \<longrightarrow>
        uploadNetworkTopologyToTrainer a s =
          (None, Some \<lparr>segments = [], rc_closed = True\<rparr>,
           s\<lparr>sent := sent s @ map (gnn_request a) (full_chunks k data @ partial_chunk k r data @ [[]]),
             send_results := drop (k + length (partial_chunk k r data) + 1) (send_results s)\<rparr>)"
    using l [of "gnn_request a" False]
    by (simp add: uploadNetworkTopologyToTrainer_def OpenNetworkTopology_def open_reader_def Close_def length_full_chunks)
  have "k * UploadBufferSize \<le> length data"
    using assms(1) by simp
  then have f: "\<forall>c \<in> set (full_chunks k data). length c = UploadBufferSize"
    by (auto intro: full_chunks_full)
  have p: "partial_chunk k r data = (if 0 < r then [drop (k * UploadBufferSize) data] else [])"
    by (simp add: partial_chunk_def)
  have lr: "length (drop (k * UploadBufferSize) data) = r"
    using assms(1) by simp
  from gd gn gc gl rf re d n de ne f p lr length_full_chunks [of k data] concat_chunks [OF assms(1)]
  show ?thesis by blast
qed

lemma full_chunks_big_file: "full_chunks (Suc 0) big_file = [replicate 1048576 7]"
  by (simp add: full_chunks_def big_file_def UploadBufferSize_def)

lemma partial_chunk_big_file: "partial_chunk (Suc 0) 3 big_file = [replicate 3 7]"
  by (simp add: partial_chunk_def big_file_def UploadBufferSize_def)

theorem upload_sends_chunks_then_empty_witness:
  "length big_file = 1 * UploadBufferSize + 3 \<and> 3 < UploadBufferSize \<and> error_free example_stream \<and>
   download_files (storage big_announcer) = Inr (file_segments big_file) \<and>
   uploadDownloadToTrainer big_announcer example_stream =
     (None, Some \<lparr>segments = [], rc_closed = True\<rparr>,
      example_stream\<lparr>sent := map (mlp_request big_announcer) [replicate 1048576 7, replicate 3 7, []]\<rparr>) \<and>
   download_files (storage short_read_announcer) = Inr [([1], None), ([2, 3], None)] \<and>
   readable [([1], None), ([2, 3], None)] \<and>
   (\<exists>rd s'. uploadDownloadToTrainer short_read_announcer example_stream = (None, Some rd, s') \<and>
      rc_closed rd \<and> sent s' = map (mlp_request short_read_announcer) [[1], [2, 3], []]) \<and>
   stream_bytes [([1], None), ([2, 3], None)] = [1, 2, 3]"
proof -
  have h1: "length big_file = 1 * UploadBufferSize + 3"
    by (simp add: big_file_def UploadBufferSize_def)
  have h2: "3 < UploadBufferSize" by (simp add: UploadBufferSize_def)
  have h3: "error_free example_stream" by (simp add: error_free_def example_stream_def)
  have h4: "download_files (storage big_announcer) = Inr (file_segments big_file)"
    by (simp add: big_announcer_def)
  have h5: "download_files (storage short_read_announcer) = Inr [([1], None), ([2, 3], None)]"
    by (simp add: short_read_announcer_def short_read_storage_def)
  have h6: "readable [([1], None), ([2, 3], None)]" by (simp add: readable_def)
  have e: "example_stream\<lparr>sent := sent example_stream @ ms, send_results := drop n (send_results example_stream)\<rparr> =
           example_stream\<lparr>sent := ms\<rparr>" for ms n
    by (simp add: example_stream_def)
  from upload_sends_chunks_then_empty [OF h1 h2 h3, where a = big_announcer] h4
  have big: "uploadDownloadToTrainer big_announcer example_stream =
     (None, Some \<lparr>segments = [], rc_closed = True\<rparr>,
      example_stream\<lparr>sent := map (mlp_request big_announcer) [replicate 1048576 7, replicate 3 7, []]\<rparr>)"
    by (simp add: full_chunks_big_file partial_chunk_big_file e)
  from upload_sends_chunks_then_empty
         [OF h1 h2 h3, where a = short_read_announcer and segs = "[([1], None), ([2, 3], None)]"] h5 h6
  obtain rd s' where "uploadDownloadToTrainer short_read_announcer example_stream = (None, Some rd, s')"
    and "rc_closed rd"
    and "sent s' = sent example_stream @ map (mlp_request short_read_announcer)
           (reads \<lparr>segments = [([1], None), ([2, 3], None)], rc_closed = False\<rparr>)"
    by blast
  then have short: "\<exists>rd s'. uploadDownloadToTrainer short_read_announcer example_stream = (None, Some rd, s') \<and>
      rc_closed rd \<and> sent s' = map (mlp_request short_read_announcer) [[1], [2, 3], []]"
    by (auto simp: reads_short example_stream_def)
  have "stream_bytes [([1], None), ([2, 3], None)] = [1, 2, 3]" by simp
  with h1 h2 h3 h4 h5 h6 big short show ?thesis by blast
qed

text \<open>
  The claim C1 as stated fails: a file of three bytes gives the partial chunk and then an
  empty message, an empty dataset gives one empty message where the claim has none, and
  three bytes delivered by reads of one and two bytes give two partial chunks and an empty
  message.
\<close>

theorem upload_sends_empty_trailing_message:
  "map (Dataset \<circ> tr_Request) (sent (snd (snd (uploadDownloadToTrainer example_announcer example_stream)))) =
     [[1, 2, 3], []] \<and>
   map (Dataset \<circ> tr_Request) (sent (snd (snd (uploadNetworkTopologyToTrainer example_announcer example_stream)))) =
     [[]] \<and>
   map (Dataset \<circ> tr_Request) (sent (snd (snd (uploadDownloadToTrainer short_read_announcer example_stream)))) =
     [[1], [2, 3], []]"
  by (simp add: uploadDownloadToTrainer_def uploadNetworkTopologyToTrainer_def OpenDownload_def
      OpenNetworkTopology_def open_reader_def example_announcer_def example_storage_def example_stream_def
      short_read_announcer_def short_read_storage_def
      upload_loop.simps upload_iter_def Read_def Send_def UploadBufferSize_def mlp_request_def gnn_request_def)

text \<open>
  C7. An upload task that has opened its reader returns with the reader closed, whatever
  the way it returns: after the last read, on a read error or on a send error.
\<close>

theorem upload_always_closes_reader:
  "(OpenDownload (storage a) = Inr r \<longrightarrow>
      (\<exists>err r' s'. uploadDownloadToTrainer a s = (err, Some r', s') \<and> rc_closed r')) \<and>
   (OpenNetworkTopology (storage a) = Inr r \<longrightarrow>
      (\<exists>err r' s'. uploadNetworkTopologyToTrainer a s = (err, Some r', s') \<and> rc_closed r'))"
  by (auto simp: uploadDownloadToTrainer_def uploadNetworkTopologyToTrainer_def Close_def
      split: prod.splits)

lemma upload_example_succeeds: "uploadDownloadToTrainer example_announcer example_stream =
   (None, Some \<lparr>segments = [], rc_closed = True\<rparr>,
    example_stream\<lparr>sent := [mlp_request example_announcer [1, 2, 3], mlp_request example_announcer []]\<rparr>)"
  by (simp add: uploadDownloadToTrainer_def OpenDownload_def open_reader_def example_announcer_def
      example_storage_def example_stream_def upload_loop.simps upload_iter_def Read_def Send_def
      UploadBufferSize_def Close_def)

lemma upload_example_read_error: "uploadDownloadToTrainer (example_announcer\<lparr>storage := read_failure_storage\<rparr>) example_stream =
   (Some (Failure ''disk''), Some \<lparr>segments = [], rc_closed = True\<rparr>, example_stream)"
  by (simp add: uploadDownloadToTrainer_def OpenDownload_def open_reader_def example_announcer_def
      read_failure_storage_def example_stream_def upload_loop.simps upload_iter_def Read_def Send_def
      UploadBufferSize_def Close_def)

lemma upload_example_send_error: "uploadDownloadToTrainer example_announcer failing_stream =
   (Some (Failure ''broken pipe''), Some \<lparr>segments = [], rc_closed = True\<rparr>,
    failing_stream\<lparr>sent := [mlp_request example_announcer [1, 2, 3]], send_results := []\<rparr>)"
  by (simp add: uploadDownloadToTrainer_def OpenDownload_def open_reader_def example_announcer_def
      example_storage_def failing_stream_def upload_loop.simps upload_iter_def Read_def Send_def
      UploadBufferSize_def Close_def)

lemma upload_example_late_read_error: "uploadNetworkTopologyToTrainer (example_announcer\<lparr>storage := read_failure_storage\<rparr>) example_stream =
   (Some (Failure ''disk''), Some \<lparr>segments = [], rc_closed = True\<rparr>,
    example_stream\<lparr>sent := [gnn_request (example_announcer\<lparr>storage := read_failure_storage\<rparr>) [4]]\<rparr>)"
  by (simp add: uploadNetworkTopologyToTrainer_def OpenNetworkTopology_def open_reader_def example_announcer_def
      read_failure_storage_def example_stream_def upload_loop.simps upload_iter_def Read_def Send_def
      UploadBufferSize_def Close_def)

theorem upload_always_closes_reader_witness:
  "OpenDownload (storage example_announcer) = Inr \<lparr>segments = [([1, 2, 3], None)], rc_closed = False\<rparr> \<and>
   (\<exists>err r' s'. uploadDownloadToTrainer example_announcer example_stream = (err, Some r', s') \<and>
      rc_closed r') \<and>
   uploadDownloadToTrainer example_announcer example_stream =
     (None, Some \<lparr>segments = [], rc_closed = True\<rparr>,
      example_stream\<lparr>sent := [mlp_request example_announcer [1, 2, 3], mlp_request example_announcer []]\<rparr>) \<and>
   uploadDownloadToTrainer (example_announcer\<lparr>storage := read_failure_storage\<rparr>) example_stream =
     (Some (Failure ''disk''), Some \<lparr>segments = [], rc_closed = True\<rparr>, example_stream) \<and>
   uploadDownloadToTrainer example_announcer failing_stream =
     (Some (Failure ''broken pipe''), Some \<lparr>segments = [], rc_closed = True\<rparr>,
      failing_stream\<lparr>sent := [mlp_request example_announcer [1, 2, 3]], send_results := []\<rparr>)"
proof -
  have h: "OpenDownload (storage example_announcer) =
             Inr \<lparr>segments = [([1, 2, 3], None)], rc_closed = False\<rparr>"
    by (simp add: OpenDownload_def open_reader_def example_announcer_def example_storage_def)
  from upload_always_closes_reader
         [of example_announcer "\<lparr>segments = [([1, 2, 3], None)], rc_closed = False\<rparr>" example_stream] h
  have "\<exists>err r' s'. uploadDownloadToTrainer example_announcer example_stream = (err, Some r', s') \<and>
      rc_closed r'"
    by blast
  with h upload_example_succeeds upload_example_read_error upload_example_send_error
  show ?thesis by blast
qed

text \<open>
  C9. A read that delivers no byte together with \<open>io.EOF\<close> still has its message sent:
  when that send succeeds, the loop returns \<open>nil\<close> having sent one message with an empty
  payload for the read. So on an empty dataset each task sends exactly one message, of
  its own variant (\<open>TrainMlpRequest\<close>, \<open>TrainGnnRequest\<close>) and with an empty payload.
\<close>

theorem zero_byte_eof_read_is_sent:
  "(Read r UploadBufferSize = (([], Some EOF), r') \<and> fst (Send s (mk [])) = None \<longrightarrow>
      upload_loop mk r s = (None, r', snd (Send s (mk []))) \<and>
      sent (snd (Send s (mk []))) = sent s @ [mk []]) \<and>
   (download_files (storage a) = Inr [] \<and> fst (Send s (mlp_request a [])) = None \<longrightarrow>
      (\<exists>s'. uploadDownloadToTrainer a s = (None, Some \<lparr>segments = [], rc_closed = True\<rparr>, s') \<and>
            sent s' = sent s @ [mlp_request a []] \<and>
            tr_Request (mlp_request a []) = TrainMlpRequest [])) \<and>
   (network_topology_files (storage a) = Inr [] \<and> fst (Send s (gnn_request a [])) = None \<longrightarrow>
      (\<exists>s'. uploadNetworkTopologyToTrainer a s = (None, Some \<lparr>segments = [], rc_closed = True\<rparr>, s') \<and>
            sent s' = sent s @ [gnn_request a []] \<and>
            tr_Request (gnn_request a []) = TrainGnnRequest []))"
proof -
  have sent_ok: "sent (snd (Send s m)) = sent s @ [m]" if "fst (Send s m) = None" for m
    using that by (auto simp: Send_def split: list.splits option.splits)
  have loop: "upload_loop mk' r0 s = (None, r1, snd (Send s (mk' [])))"
    if "Read r0 UploadBufferSize = (([], Some EOF), r1)" and "fst (Send s (mk' [])) = None"
    for mk' r0 r1
    using that
    by (subst upload_loop.simps) (auto simp: upload_iter_def split: prod.splits option.splits)
  have rd: "Read \<lparr>segments = [], rc_closed = False\<rparr> UploadBufferSize =
            (([], Some EOF), \<lparr>segments = [], rc_closed = False\<rparr>)"
    by (simp add: Read_def)
  have 1: "Read r UploadBufferSize = (([], Some EOF), r') \<and> fst (Send s (mk [])) = None \<longrightarrow>
      upload_loop mk r s = (None, r', snd (Send s (mk []))) \<and>
      sent (snd (Send s (mk []))) = sent s @ [mk []]"
    using loop [where mk' = mk and ?r0.0 = r and ?r1.0 = r'] sent_ok [of "mk []"] by blast
  have 2: "download_files (storage a) = Inr [] \<and> fst (Send s (mlp_request a [])) = None \<longrightarrow>
      (\<exists>s'. uploadDownloadToTrainer a s = (None, Some \<lparr>segments = [], rc_closed = True\<rparr>, s') \<and>
            sent s' = sent s @ [mlp_request a []] \<and>
            tr_Request (mlp_request a []) = TrainMlpRequest [])"
    using loop [OF rd, of "mlp_request a"] sent_ok [of "mlp_request a []"]
    by (auto simp: uploadDownloadToTrainer_def OpenDownload_def open_reader_def Close_def mlp_request_def)
  have 3: "network_topology_files (storage a) = Inr [] \<and> fst (Send s (gnn_request a [])) = None \<longrightarrow>
      (\<exists>s'. uploadNetworkTopologyToTrainer a s = (None, Some \<lparr>segments = [], rc_closed = True\<rparr>, s') \<and>
            sent s' = sent s @ [gnn_request a []] \<and>
            tr_Request (gnn_request a []) = TrainGnnRequest [])"
    using loop [OF rd, of "gnn_request a"] sent_ok [of "gnn_request a []"]
    by (auto simp: uploadNetworkTopologyToTrainer_def OpenNetworkTopology_def open_reader_def Close_def gnn_request_def)
  from 1 2 3 show ?thesis by blast
qed

theorem zero_byte_eof_read_is_sent_witness:
  "network_topology_files (storage example_announcer) = Inr [] \<and>
   fst (Send example_stream (gnn_request example_announcer [])) = None \<and>
   (\<exists>s'. uploadNetworkTopologyToTrainer example_announcer example_stream =
           (None, Some \<lparr>segments = [], rc_closed = True\<rparr>, s') \<and>
         sent s' = [gnn_request example_announcer []]) \<and>
   Dataset (tr_Request (gnn_request example_announcer [])) = []"
proof -
  have h1: "network_topology_files (storage example_announcer) = Inr []"
    by (simp add: example_announcer_def example_storage_def)
  have h2: "fst (Send example_stream (gnn_request example_announcer [])) = None"
    by (simp add: Send_def example_stream_def)
  from zero_byte_eof_read_is_sent [of _ _ example_stream _ example_announcer] h1 h2
  obtain s' where
    "uploadNetworkTopologyToTrainer example_announcer example_stream =
       (None, Some \<lparr>segments = [], rc_closed = True\<rparr>, s')"
    "sent s' = sent example_stream @ [gnn_request example_announcer []]"
    "tr_Request (gnn_request example_announcer []) = TrainGnnRequest []"
    by blast
  moreover have "sent example_stream = []" by (simp add: example_stream_def)
  ultimately have
    "(\<exists>s'. uploadNetworkTopologyToTrainer example_announcer example_stream =
           (None, Some \<lparr>segments = [], rc_closed = True\<rparr>, s') \<and>
         sent s' = [gnn_request example_announcer []]) \<and>
     Dataset (tr_Request (gnn_request example_announcer [])) = []"
    by simp
  with h1 h2 show ?thesis by blast
qed

subsection \<open>A training round\<close>

lemma eg_task_set_task [simp]:
  "eg_task (eg_set_task t tk g) u = (if u = t then tk else eg_task g u)"
  by (cases t; cases u) simp_all

lemma eg_set_task_fields [simp]:
  "eg_exits (eg_set_task t tk g) = eg_exits g"
  "eg_err (eg_set_task t tk g) = eg_err g"
  "eg_stream (eg_set_task t tk g) = eg_stream g"
  by (cases t; simp)+

lemma eg_task_stream [simp]: "eg_task (g\<lparr>eg_stream := s\<rparr>) u = eg_task g u"
  by (cases u) simp_all

lemma eg_return_fields [simp]:
  "eg_task (eg_return t err g) u = eg_task g u"
  "eg_exits (eg_return t err g) = eg_exits g @ [t]"
  "eg_stream (eg_return t err g) = eg_stream g"
  by (cases u; simp add: eg_return_def split: option.splits)
     (simp_all add: eg_return_def split: option.splits)

lemma eg_err_return:
  "eg_err (eg_return t err g) =
     (case eg_err g of
        Some first \<Rightarrow> Some first
      | None \<Rightarrow> map_option (Wrap (task_stage t)) err)"
  by (simp add: eg_return_def split: option.splits)

lemma eg_advance_exited: "exited (eg_task g t) \<Longrightarrow> eg_advance run a t g = g"
  by (cases "eg_task g t") (simp_all add: eg_advance_def)

lemma eg_advance_cases:
  assumes "\<not> exited (eg_task g t)" and "run a t (eg_task g t) (eg_stream g) = (tk', s')"
  shows "eg_advance run a t g =
           (if exited tk' then eg_return t (task_err tk') (eg_set_task t tk' (g\<lparr>eg_stream := s'\<rparr>))
            else eg_set_task t tk' (g\<lparr>eg_stream := s'\<rparr>))"
  using assms by (cases "eg_task g t"; cases tk') (simp_all add: eg_advance_def)

lemma failed_exits_other:
  assumes "t \<notin> set (eg_exits g)"
  shows "failed_exits (eg_set_task t tk (g\<lparr>eg_stream := s\<rparr>)) = failed_exits g"
  using assms by (auto simp: failed_exits_def intro: filter_cong)

lemma first_failure_other:
  assumes "t \<notin> set (eg_exits g)"
  shows "first_failure (eg_set_task t tk (g\<lparr>eg_stream := s\<rparr>)) = first_failure g"
proof -
  have "set (failed_exits g) \<subseteq> set (eg_exits g)" by (auto simp: failed_exits_def)
  with assms have "u \<noteq> t" if "failed_exits g = u # us" for u us
    using that by auto
  then show ?thesis
    by (auto simp: first_failure_def failed_exits_other [OF assms] split: list.splits)
qed

lemma eg_inv_advance:
  assumes "eg_inv g"
  shows "eg_inv (eg_advance run a t g)"
proof (cases "exited (eg_task g t)")
  case True
  with assms show ?thesis by (simp add: eg_advance_exited)
next
  case False
  obtain tk' s' where r: "run a t (eg_task g t) (eg_stream g) = (tk', s')"
    by (cases "run a t (eg_task g t) (eg_stream g)")
  from assms False have notin: "t \<notin> set (eg_exits g)" by (simp add: eg_inv_def)
  let ?g1 = "eg_set_task t tk' (g\<lparr>eg_stream := s'\<rparr>)"
  have ff1: "first_failure ?g1 = first_failure g" by (rule first_failure_other [OF notin])
  have fe1: "failed_exits ?g1 = failed_exits g" by (rule failed_exits_other [OF notin])
  show ?thesis
  proof (cases "exited tk'")
    case False
    with \<open>\<not> exited (eg_task g t)\<close> r have "eg_advance run a t g = ?g1"
      by (simp add: eg_advance_cases)
    moreover have "eg_inv ?g1"
      using assms False notin ff1 by (auto simp: eg_inv_def)
    ultimately show ?thesis by simp
  next
    case True
    let ?g2 = "eg_return t (task_err tk') ?g1"
    from \<open>\<not> exited (eg_task g t)\<close> r True have adv: "eg_advance run a t g = ?g2"
      by (simp add: eg_advance_cases)
    have d: "distinct (eg_exits ?g2)" using assms notin by (simp add: eg_inv_def)
    have m: "\<forall>u. (u \<in> set (eg_exits ?g2)) = exited (eg_task ?g2 u)"
      using assms True by (auto simp: eg_inv_def)
    have fe2: "failed_exits ?g2 = failed_exits g @ (if task_err tk' \<noteq> None then [t] else [])"
      using fe1 by (simp add: failed_exits_def)
    have e: "eg_err ?g2 = first_failure ?g2"
    proof (cases "failed_exits g")
      case Nil
      with assms have "eg_err g = None" by (simp add: eg_inv_def first_failure_def)
      with Nil fe2 show ?thesis
        by (cases "task_err tk'") (simp_all add: eg_err_return first_failure_def)
    next
      case (Cons u us)
      then have "u \<in> set (failed_exits g)" by simp
      then have fu: "task_err (eg_task g u) \<noteq> None" and "u \<in> set (eg_exits g)"
        by (auto simp: failed_exits_def)
      with notin have "u \<noteq> t" by auto
      from assms Cons have "eg_err g = map_option (Wrap (task_stage u)) (task_err (eg_task g u))"
        by (simp add: eg_inv_def first_failure_def)
      with fu Cons fe2 \<open>u \<noteq> t\<close> show ?thesis
        by (auto simp: eg_err_return first_failure_def)
    qed
    from d m e adv show ?thesis by (simp add: eg_inv_def)
  qed
qed

lemma eg_inv_fold: "eg_inv g \<Longrightarrow> eg_inv (fold (eg_advance run a) sched g)"
  by (induction sched arbitrary: g) (simp_all add: eg_inv_advance)

lemma eg_advance_keeps_exited:
  assumes "exited (eg_task g u)"
  shows "eg_task (eg_advance run a t g) u = eg_task g u"
proof (cases "exited (eg_task g t)")
  case True
  then show ?thesis by (simp add: eg_advance_exited)
next
  case False
  with assms have "u \<noteq> t" by auto
  obtain tk' s' where r: "run a t (eg_task g t) (eg_stream g) = (tk', s')"
    by (cases "run a t (eg_task g t) (eg_stream g)")
  from False r \<open>u \<noteq> t\<close> show ?thesis by (simp add: eg_advance_cases)
qed

lemma task_finish_exited: "exited (fst (task_finish a t tk s))"
  by (cases tk) (auto split: sum.splits prod.splits)

lemma eg_advance_finish: "exited (eg_task (eg_advance task_finish a t g) t)"
proof (cases "exited (eg_task g t)")
  case True
  then show ?thesis by (simp add: eg_advance_exited)
next
  case False
  obtain tk' s' where r: "task_finish a t (eg_task g t) (eg_stream g) = (tk', s')"
    by (cases "task_finish a t (eg_task g t) (eg_stream g)")
  with task_finish_exited [of a t "eg_task g t" "eg_stream g"] have "exited tk'" by simp
  with False r show ?thesis by (simp add: eg_advance_cases)
qed

lemma eg_Wait_done:
  "exited (eg_task (eg_Wait a sched g) DownloadTask) \<and>
   exited (eg_task (eg_Wait a sched g) NetworkTopologyTask)"
proof -
  let ?g1 = "fold (eg_advance task_step a) sched g"
  let ?g2 = "eg_advance task_finish a DownloadTask ?g1"
  have "exited (eg_task ?g2 DownloadTask)" by (rule eg_advance_finish)
  then have "exited (eg_task (eg_advance task_finish a NetworkTopologyTask ?g2) DownloadTask)"
    using eg_advance_keeps_exited [of ?g2 DownloadTask task_finish a NetworkTopologyTask] by simp
  moreover have "exited (eg_task (eg_advance task_finish a NetworkTopologyTask ?g2) NetworkTopologyTask)"
    by (rule eg_advance_finish)
  ultimately show ?thesis by (simp add: eg_Wait_def)
qed

lemma eg_inv_Wait: "eg_inv g \<Longrightarrow> eg_inv (eg_Wait a sched g)"
  by (simp add: eg_Wait_def eg_inv_advance eg_inv_fold)

lemma failed_exits_stream [simp]: "failed_exits (g\<lparr>eg_stream := s\<rparr>) = failed_exits g"
  by (simp add: failed_exits_def)

lemma first_failure_stream [simp]: "first_failure (g\<lparr>eg_stream := s\<rparr>) = first_failure g"
  by (simp add: first_failure_def split: list.splits)

lemma two_exits:
  assumes "distinct xs" and "set xs = {DownloadTask, NetworkTopologyTask}"
  shows "xs = [DownloadTask, NetworkTopologyTask] \<or> xs = [NetworkTopologyTask, DownloadTask]"
proof -
  from assms have "length xs = card {DownloadTask, NetworkTopologyTask}"
    using distinct_card by fastforce
  then have "length xs = 2" by simp
  then obtain x y where xs: "xs = [x, y]"
    by (metis (no_types) length_0_conv length_Suc_conv numeral_2_eq_2)
  with assms show ?thesis by (cases x; cases y) auto
qed

lemma Send_keeps:
  "recv_result (snd (Send s m)) = recv_result s \<and> close_calls (snd (Send s m)) = close_calls s"
  by (simp add: Send_def split: list.splits option.splits)

lemma upload_iter_keeps:
  assumes "upload_iter mk r s = (f, r', s')"
  shows "recv_result s' = recv_result s \<and> close_calls s' = close_calls s"
proof -
  obtain bs err r1 where rd: "Read r UploadBufferSize = ((bs, err), r1)"
    by (metis prod.exhaust)
  obtain serr s1 where sd: "Send s (mk bs) = (serr, s1)" by (cases "Send s (mk bs)")
  from Send_keeps [of s "mk bs"] sd
  have "recv_result s1 = recv_result s \<and> close_calls s1 = close_calls s" by simp
  with assms rd sd show ?thesis
    by (auto simp: upload_iter_def split: if_splits option.splits)
qed

lemma upload_loop_keeps:
  "upload_loop mk r s = (err, r', s') \<Longrightarrow>
   recv_result s' = recv_result s \<and> close_calls s' = close_calls s"
proof (induction mk r s rule: upload_loop.induct)
  case (1 mk r s)
  obtain f r1 s1 where it: "upload_iter mk r s = (f, r1, s1)"
    by (metis prod.exhaust)
  note k = upload_iter_keeps [OF it]
  show ?case
  proof (cases f)
    case Continue
    with it "1.prems" have "upload_loop mk r1 s1 = (err, r', s')"
      by (subst (asm) upload_loop.simps) simp
    from "1.IH" [OF it [symmetric] _ _ this] Continue k show ?thesis by simp
  next
    case (Return e)
    with it "1.prems" have "s' = s1"
      by (subst (asm) upload_loop.simps) simp
    with k show ?thesis by simp
  qed
qed

lemma task_step_keeps:
  "task_step a t tk s = (tk', s') \<Longrightarrow>
   recv_result s' = recv_result s \<and> close_calls s' = close_calls s"
proof (cases tk)
  case Ready
  assume "task_step a t tk s = (tk', s')"
  with Ready show ?thesis by (auto split: sum.splits)
next
  case (Running r)
  assume st: "task_step a t tk s = (tk', s')"
  obtain f r1 s1 where it: "upload_iter (task_request a t) r s = (f, r1, s1)"
    by (metis prod.exhaust)
  from st Running it have "s' = s1" by (cases f) auto
  with upload_iter_keeps [OF it] show ?thesis by simp
next
  case (Exited err ro)
  assume "task_step a t tk s = (tk', s')"
  with Exited show ?thesis by simp
qed

lemma task_finish_keeps:
  "task_finish a t tk s = (tk', s') \<Longrightarrow>
   recv_result s' = recv_result s \<and> close_calls s' = close_calls s"
proof (cases tk)
  case Ready
  assume fin: "task_finish a t tk s = (tk', s')"
  show ?thesis
  proof (cases "task_open a t")
    case (Inl e)
    with fin Ready show ?thesis by simp
  next
    case (Inr r)
    obtain err r1 s1 where lp: "upload_loop (task_request a t) r s = (err, r1, s1)"
      by (metis prod.exhaust)
    with fin Ready Inr have "s' = s1" by simp
    with upload_loop_keeps [OF lp] show ?thesis by simp
  qed
next
  case (Running r)
  assume fin: "task_finish a t tk s = (tk', s')"
  obtain err r1 s1 where lp: "upload_loop (task_request a t) r s = (err, r1, s1)"
    by (metis prod.exhaust)
  with fin Running have "s' = s1" by simp
  with upload_loop_keeps [OF lp] show ?thesis by simp
next
  case (Exited err ro)
  assume "task_finish a t tk s = (tk', s')"
  with Exited show ?thesis by simp
qed

lemma eg_advance_keeps:
  assumes "\<And>tk s tk' s'. run a t tk s = (tk', s') \<Longrightarrow>
             recv_result s' = recv_result s \<and> close_calls s' = close_calls s"
  shows "recv_result (eg_stream (eg_advance run a t g)) = recv_result (eg_stream g) \<and>
         close_calls (eg_stream (eg_advance run a t g)) = close_calls (eg_stream g)"
proof (cases "exited (eg_task g t)")
  case True
  then show ?thesis by (simp add: eg_advance_exited)
next
  case False
  obtain tk' s' where r: "run a t (eg_task g t) (eg_stream g) = (tk', s')"
    by (cases "run a t (eg_task g t) (eg_stream g)")
  from assms [OF r] False r show ?thesis by (simp add: eg_advance_cases)
qed

lemma eg_fold_keeps:
  "recv_result (eg_stream (fold (eg_advance task_step a) sched g)) = recv_result (eg_stream g) \<and>
   close_calls (eg_stream (fold (eg_advance task_step a) sched g)) = close_calls (eg_stream g)"
proof (induction sched arbitrary: g)
  case Nil
  then show ?case by simp
next
  case (Cons t sched)
  from Cons [of "eg_advance task_step a t g"]
    eg_advance_keeps [of task_step a t g, OF task_step_keeps]
  show ?case by simp
qed

lemma eg_Wait_keeps:
  "recv_result (eg_stream (eg_Wait a sched g)) = recv_result (eg_stream g) \<and>
   close_calls (eg_stream (eg_Wait a sched g)) = close_calls (eg_stream g)"
proof -
  let ?g1 = "fold (eg_advance task_step a) sched g"
  let ?g2 = "eg_advance task_finish a DownloadTask ?g1"
  from eg_fold_keeps [of a sched g]
    eg_advance_keeps [of task_finish a DownloadTask ?g1, OF task_finish_keeps]
    eg_advance_keeps [of task_finish a NetworkTopologyTask ?g2, OF task_finish_keeps]
  show ?thesis by (simp add: eg_Wait_def)
qed

lemma eg_inv_start: "eg_inv (eg_start stream)"
proof -
  have "\<not> exited (eg_task (eg_start stream) t)" for t
    by (cases t) (simp_all add: eg_start_def)
  then show ?thesis
    by (simp add: eg_inv_def first_failure_def failed_exits_def eg_start_def)
qed

lemma train_opened:
  fixes sched :: "task_id list"
  assumes "trainerClient a = Some tc" and "Train_result tc (Train_calls tc) = Inr stream"
  defines "a' \<equiv> a\<lparr>trainerClient := Some (tc\<lparr>Train_calls := Train_calls tc + 1\<rparr>)\<rparr>"
  defines "g \<equiv> eg_Wait a' sched (eg_start stream)"
  shows "train a sched =
           (case eg_err g of
              Some err \<Rightarrow> (Returned (Some err, Some g), a')
            | None \<Rightarrow>
                (Returned (recv_result stream,
                   Some (g\<lparr>eg_stream := (eg_stream g)\<lparr>close_calls := close_calls stream + 1\<rparr>\<rparr>)), a'))"
proof -
  from eg_Wait_keeps [of a' sched "eg_start stream"]
  have k: "recv_result (eg_stream g) = recv_result stream" "close_calls (eg_stream g) = close_calls stream"
    by (simp_all add: g_def eg_start_def)
  show ?thesis
  proof (cases "eg_err g")
    case None
    with assms(1,2) k show ?thesis
      by (cases "recv_result stream")
         (simp_all add: train_def Train_def Let_def CloseAndRecv_def a'_def g_def eg_start_def)
  next
    case (Some e)
    with assms(1,2) show ?thesis
      by (simp add: train_def Train_def Let_def a'_def g_def eg_start_def)
  qed
qed

lemma task_finish_download:
  "task_finish a DownloadTask Ready s =
     (case uploadDownloadToTrainer a s of (err, ro, s') \<Rightarrow> (Exited err ro, s'))"
  by (simp add: uploadDownloadToTrainer_def split: sum.splits prod.splits)

lemma task_finish_topology:
  "task_finish a NetworkTopologyTask Ready s =
     (case uploadNetworkTopologyToTrainer a s of (err, ro, s') \<Rightarrow> (Exited err ro, s'))"
  by (simp add: uploadNetworkTopologyToTrainer_def split: sum.splits prod.splits)

lemma task_step_then_finish:
  "task_finish a t (fst (task_step a t tk s)) (snd (task_step a t tk s)) = task_finish a t tk s"
proof (cases tk)
  case Ready
  then show ?thesis by (simp split: sum.splits)
next
  case (Running r)
  obtain f r1 s1 where it: "upload_iter (task_request a t) r s = (f, r1, s1)"
    by (metis prod.exhaust)
  have "upload_loop (task_request a t) r s =
          (case f of Continue \<Rightarrow> upload_loop (task_request a t) r1 s1 | Return err \<Rightarrow> (err, r1, s1))"
    by (subst upload_loop.simps) (simp add: it split: flow.splits)
  with Running it show ?thesis by (cases f) simp_all
next
  case (Exited err ro)
  then show ?thesis by simp
qed

lemma first_failure_None: "(first_failure g = None) = (failed_exits g = [])"
proof (cases "failed_exits g")
  case Nil
  then show ?thesis by (simp add: first_failure_def)
next
  case (Cons u us)
  then have "u \<in> set (failed_exits g)" by simp
  then have "task_err (eg_task g u) \<noteq> None" by (simp add: failed_exits_def)
  with Cons show ?thesis by (auto simp: first_failure_def)
qed

lemma eg_Wait_round:
  fixes a :: announcer and sched :: "task_id list" and stream :: TrainClient
  defines "g \<equiv> eg_Wait a sched (eg_start stream)"
  shows "exited (eg_download g)" and "exited (eg_topology g)"
    and "distinct (eg_exits g)" and "set (eg_exits g) = {DownloadTask, NetworkTopologyTask}"
    and "eg_err g = first_failure g"
proof -
  have inv: "eg_inv g" unfolding g_def by (rule eg_inv_Wait [OF eg_inv_start])
  from eg_Wait_done [of a sched "eg_start stream"]
  show d: "exited (eg_download g)" and n: "exited (eg_topology g)" by (simp_all add: g_def)
  from inv show "distinct (eg_exits g)" and "eg_err g = first_failure g"
    by (simp_all add: eg_inv_def)
  have "exited (eg_task g t)" for t using d n by (cases t) simp_all
  with inv have "t \<in> set (eg_exits g)" for t by (simp add: eg_inv_def)
  moreover have "t \<in> {DownloadTask, NetworkTopologyTask}" for t by (cases t) simp_all
  ultimately show "set (eg_exits g) = {DownloadTask, NetworkTopologyTask}" by blast
qed

text \<open>
  C5. Once the stream is open, \<open>train\<close> returns only when both upload tasks have
  returned, under every interleaving of their steps. If one task fails, the round fails
  with that task's error wrapped with its stage (\<open>upload download\<close>,
  \<open>upload network topology\<close>); if both fail, with the wrapped error of the task that
  returned first.
\<close>

theorem train_joins_both_tasks:
  assumes "trainerClient a = Some tc" and "Train_result tc (Train_calls tc) = Inr stream"
  shows "\<exists>err g a'. train a sched = (Returned (err, Some g), a') \<and>
           exited (eg_download g) \<and> exited (eg_topology g) \<and>
           distinct (eg_exits g) \<and> set (eg_exits g) = {DownloadTask, NetworkTopologyTask} \<and>
           (failed_exits g \<noteq> [] \<longrightarrow> err = first_failure g) \<and>
           (\<forall>e. task_err (eg_download g) = Some e \<and> task_err (eg_topology g) = None \<longrightarrow>
              err = Some (Wrap ''upload download: '' e)) \<and>
           (\<forall>e. task_err (eg_download g) = None \<and> task_err (eg_topology g) = Some e \<longrightarrow>
              err = Some (Wrap ''upload network topology: '' e)) \<and>
           (\<forall>e1 e2. task_err (eg_download g) = Some e1 \<and> task_err (eg_topology g) = Some e2 \<longrightarrow>
              err = Some (if hd (eg_exits g) = DownloadTask then Wrap ''upload download: '' e1
                          else Wrap ''upload network topology: '' e2))"
proof -
  define a' where "a' = a\<lparr>trainerClient := Some (tc\<lparr>Train_calls := Train_calls tc + 1\<rparr>)\<rparr>"
  define g0 where "g0 = eg_Wait a' sched (eg_start stream)"
  note r = eg_Wait_round [of a' sched stream, folded g0_def]
  note tr = train_opened [OF assms, of sched, folded a'_def g0_def]
  define err where "err = (case eg_err g0 of Some e \<Rightarrow> Some e | None \<Rightarrow> recv_result stream)"
  define g where "g = (case eg_err g0 of Some e \<Rightarrow> g0
    | None \<Rightarrow> g0\<lparr>eg_stream := (eg_stream g0)\<lparr>close_calls := close_calls stream + 1\<rparr>\<rparr>)"
  have t: "train a sched = (Returned (err, Some g), a')"
    using tr by (simp add: err_def g_def split: option.splits)
  have same: "eg_download g = eg_download g0" "eg_topology g = eg_topology g0"
    "eg_exits g = eg_exits g0" "failed_exits g = failed_exits g0" "first_failure g = first_failure g0"
    by (simp_all add: g_def split: option.splits)
  have ff: "err = first_failure g0" if "failed_exits g0 \<noteq> []"
  proof -
    from that have "first_failure g0 \<noteq> None" by (simp add: first_failure_None)
    with r(5) show ?thesis by (auto simp: err_def)
  qed
  from two_exits [OF r(3) r(4)]
  have cases: "(\<forall>e. task_err (eg_download g0) = Some e \<and> task_err (eg_topology g0) = None \<longrightarrow>
              err = Some (Wrap ''upload download: '' e)) \<and>
           (\<forall>e. task_err (eg_download g0) = None \<and> task_err (eg_topology g0) = Some e \<longrightarrow>
              err = Some (Wrap ''upload network topology: '' e)) \<and>
           (\<forall>e1 e2. task_err (eg_download g0) = Some e1 \<and> task_err (eg_topology g0) = Some e2 \<longrightarrow>
              err = Some (if hd (eg_exits g0) = DownloadTask then Wrap ''upload download: '' e1
                          else Wrap ''upload network topology: '' e2))"
  proof
    assume x: "eg_exits g0 = [DownloadTask, NetworkTopologyTask]"
    then show ?thesis using ff by (auto simp: failed_exits_def first_failure_def)
  next
    assume x: "eg_exits g0 = [NetworkTopologyTask, DownloadTask]"
    then show ?thesis using ff by (auto simp: failed_exits_def first_failure_def)
  qed
  from t r(1-4) ff cases show ?thesis unfolding same [symmetric] by blast
qed

text \<open>
  C6, as the code has it. \<open>train\<close> calls \<open>CloseAndRecv\<close> exactly when both upload tasks
  have returned \<open>nil\<close>, and not at all when one of them failed; when it is called, the
  round returns what \<open>CloseAndRecv\<close> returned, as it is, with no stage wrapped around it.
\<close>

theorem train_finalizes_iff_both_succeed:
  assumes "trainerClient a = Some tc" and "Train_result tc (Train_calls tc) = Inr stream"
  shows "\<exists>err g a'. train a sched = (Returned (err, Some g), a') \<and>
           close_calls (eg_stream g) =
             (if task_err (eg_download g) = None \<and> task_err (eg_topology g) = None
              then close_calls stream + 1 else close_calls stream) \<and>
           (task_err (eg_download g) = None \<and> task_err (eg_topology g) = None \<longrightarrow>
              err = recv_result stream)"
proof -
  define a' where "a' = a\<lparr>trainerClient := Some (tc\<lparr>Train_calls := Train_calls tc + 1\<rparr>)\<rparr>"
  define g0 where "g0 = eg_Wait a' sched (eg_start stream)"
  note r = eg_Wait_round [of a' sched stream, folded g0_def]
  note tr = train_opened [OF assms, of sched, folded a'_def g0_def]
  from eg_Wait_keeps [of a' sched "eg_start stream"]
  have k: "close_calls (eg_stream g0) = close_calls stream"
    by (simp add: g0_def eg_start_def)
  have "(eg_err g0 = None) = (failed_exits g0 = [])"
    using r(5) by (simp add: first_failure_None)
  also have "\<dots> = (\<forall>t \<in> set (eg_exits g0). task_err (eg_task g0 t) = None)"
    by (simp add: failed_exits_def filter_empty_conv)
  also have "\<dots> = (task_err (eg_download g0) = None \<and> task_err (eg_topology g0) = None)"
    using r(4) by simp
  finally have ok: "(eg_err g0 = None) =
      (task_err (eg_download g0) = None \<and> task_err (eg_topology g0) = None)" .
  show ?thesis
  proof (cases "eg_err g0")
    case None
    with tr have "train a sched = (Returned (recv_result stream,
        Some (g0\<lparr>eg_stream := (eg_stream g0)\<lparr>close_calls := close_calls stream + 1\<rparr>\<rparr>)), a')"
      by simp
    moreover from None ok have "task_err (eg_download g0) = None \<and> task_err (eg_topology g0) = None"
      by simp
    ultimately show ?thesis by simp
  next
    case (Some e)
    with tr have "train a sched = (Returned (Some e, Some g0), a')" by simp
    moreover from Some ok have "\<not> (task_err (eg_download g0) = None \<and> task_err (eg_topology g0) = None)"
      by simp
    ultimately show ?thesis using k by auto
  qed
qed

lemma both_fail_download_first:
  "\<exists>g. fst (train both_fail_announcer []) =
          Returned (Some (Wrap ''upload download: '' (Failure ''disk'')), Some g) \<and>
        eg_exits g = [DownloadTask, NetworkTopologyTask] \<and>
        task_err (eg_download g) = Some (Failure ''disk'') \<and>
        task_err (eg_topology g) = Some (Failure ''disk'') \<and>
        close_calls (eg_stream g) = 0"
  by (simp add: train_def Train_def Let_def eg_start_def eg_Wait_def eg_advance_def eg_return_def
      upload_loop.simps upload_iter_def Read_def Send_def CloseAndRecv_def OpenDownload_def
      OpenNetworkTopology_def open_reader_def Close_def UploadBufferSize_def
      both_fail_announcer_def read_failure_storage_def example_announcer_def example_trainer_def
      example_stream_def)

lemma both_fail_topology_first:
  "\<exists>g. fst (train both_fail_announcer [NetworkTopologyTask, NetworkTopologyTask, NetworkTopologyTask]) =
          Returned (Some (Wrap ''upload network topology: '' (Failure ''disk'')), Some g) \<and>
        eg_exits g = [NetworkTopologyTask, DownloadTask] \<and>
        task_err (eg_download g) = Some (Failure ''disk'') \<and>
        task_err (eg_topology g) = Some (Failure ''disk'') \<and>
        close_calls (eg_stream g) = 0"
  by (simp add: train_def Train_def Let_def eg_start_def eg_Wait_def eg_advance_def eg_return_def
      upload_loop.simps upload_iter_def Read_def Send_def CloseAndRecv_def OpenDownload_def
      OpenNetworkTopology_def open_reader_def Close_def UploadBufferSize_def
      both_fail_announcer_def read_failure_storage_def example_announcer_def example_trainer_def
      example_stream_def)

theorem train_joins_both_tasks_witness:
  "trainerClient both_fail_announcer = Some example_trainer \<and>
   Train_result example_trainer (Train_calls example_trainer) = Inr example_stream \<and>
   (\<exists>err g a'. train both_fail_announcer [] = (Returned (err, Some g), a') \<and>
      exited (eg_download g) \<and> exited (eg_topology g)) \<and>
   (\<exists>g. fst (train both_fail_announcer []) =
          Returned (Some (Wrap ''upload download: '' (Failure ''disk'')), Some g) \<and>
        eg_exits g = [DownloadTask, NetworkTopologyTask] \<and>
        task_err (eg_download g) = Some (Failure ''disk'') \<and>
        task_err (eg_topology g) = Some (Failure ''disk'') \<and>
        close_calls (eg_stream g) = 0) \<and>
   (\<exists>g. fst (train both_fail_announcer [NetworkTopologyTask, NetworkTopologyTask, NetworkTopologyTask]) =
          Returned (Some (Wrap ''upload network topology: '' (Failure ''disk'')), Some g) \<and>
        eg_exits g = [NetworkTopologyTask, DownloadTask] \<and>
        task_err (eg_download g) = Some (Failure ''disk'') \<and>
        task_err (eg_topology g) = Some (Failure ''disk'') \<and>
        close_calls (eg_stream g) = 0)"
proof -
  have h1: "trainerClient both_fail_announcer = Some example_trainer"
    by (simp add: both_fail_announcer_def example_announcer_def)
  have h2: "Train_result example_trainer (Train_calls example_trainer) = Inr example_stream"
    by (simp add: example_trainer_def)
  from train_joins_both_tasks [OF h1 h2, of "[]"]
  have "\<exists>err g a'. train both_fail_announcer [] = (Returned (err, Some g), a') \<and>
      exited (eg_download g) \<and> exited (eg_topology g)"
    by blast
  with h1 h2 both_fail_download_first both_fail_topology_first show ?thesis by blast
qed

lemma rejected_round_run:
  "fst (train rejected_announcer []) = Returned (Some (Failure ''rejected''), Some rejected_round)"
  by (simp add: train_def Train_def Let_def eg_start_def eg_Wait_def eg_advance_def eg_return_def
      upload_loop.simps upload_iter_def Read_def Send_def CloseAndRecv_def OpenDownload_def
      OpenNetworkTopology_def open_reader_def Close_def UploadBufferSize_def mlp_request_def
      gnn_request_def rejected_announcer_def rejecting_trainer_def rejected_round_def
      example_storage_def example_announcer_def example_config_def example_stream_def)

theorem train_finalizes_iff_both_succeed_witness:
  "trainerClient rejected_announcer = Some rejecting_trainer \<and>
   Train_result rejecting_trainer (Train_calls rejecting_trainer) =
     Inr (example_stream\<lparr>recv_result := Some (Failure ''rejected'')\<rparr>) \<and>
   (\<exists>err g a'. train rejected_announcer [] = (Returned (err, Some g), a') \<and>
      close_calls (eg_stream g) =
        (if task_err (eg_download g) = None \<and> task_err (eg_topology g) = None then 1 else 0)) \<and>
   fst (train rejected_announcer []) = Returned (Some (Failure ''rejected''), Some rejected_round) \<and>
   task_err (eg_download rejected_round) = None \<and> task_err (eg_topology rejected_round) = None \<and>
   close_calls (eg_stream rejected_round) = 1"
proof -
  have h1: "trainerClient rejected_announcer = Some rejecting_trainer"
    by (simp add: rejected_announcer_def)
  have h2: "Train_result rejecting_trainer (Train_calls rejecting_trainer) =
     Inr (example_stream\<lparr>recv_result := Some (Failure ''rejected'')\<rparr>)"
    by (simp add: rejecting_trainer_def)
  have c: "close_calls (example_stream\<lparr>recv_result := Some (Failure ''rejected'')\<rparr>) = 0"
    by (simp add: example_stream_def)
  from train_finalizes_iff_both_succeed [OF h1 h2, of "[]"]
  obtain err g a' where t: "train rejected_announcer [] = (Returned (err, Some g), a')"
    and "close_calls (eg_stream g) =
        (if task_err (eg_download g) = None \<and> task_err (eg_topology g) = None
         then close_calls (example_stream\<lparr>recv_result := Some (Failure ''rejected'')\<rparr>) + 1
         else close_calls (example_stream\<lparr>recv_result := Some (Failure ''rejected'')\<rparr>))"
    by blast
  with c have "close_calls (eg_stream g) =
        (if task_err (eg_download g) = None \<and> task_err (eg_topology g) = None then 1 else 0)"
    by simp
  with t have "\<exists>err g a'. train rejected_announcer [] = (Returned (err, Some g), a') \<and>
      close_calls (eg_stream g) =
        (if task_err (eg_download g) = None \<and> task_err (eg_topology g) = None then 1 else 0)"
    by blast
  moreover have "task_err (eg_download rejected_round) = None"
    "task_err (eg_topology rejected_round) = None" "close_calls (eg_stream rejected_round) = 1"
    by (simp_all add: rejected_round_def)
  ultimately show ?thesis using h1 h2 rejected_round_run by blast
qed

text \<open>
  The claim C6 as stated fails in its last part: when \<open>CloseAndRecv\<close> fails after two
  successful uploads, the round returns that error itself, not an error that wraps it.
\<close>

theorem train_finalize_error_not_wrapped:
  "fst (train rejected_announcer []) = Returned (Some (Failure ''rejected''), Some rejected_round) \<and>
   task_err (eg_download rejected_round) = None \<and> task_err (eg_topology rejected_round) = None \<and>
   recv_result (eg_stream rejected_round) = Some (Failure ''rejected'') \<and>
   Failure ''rejected'' \<noteq> Wrap ''finalize: '' (Failure ''rejected'')"
  by (simp add: train_def Train_def Let_def eg_start_def eg_Wait_def eg_advance_def eg_return_def
      upload_loop.simps upload_iter_def Read_def Send_def CloseAndRecv_def OpenDownload_def
      OpenNetworkTopology_def open_reader_def Close_def UploadBufferSize_def mlp_request_def
      gnn_request_def rejected_announcer_def rejecting_trainer_def rejected_round_def
      example_storage_def example_announcer_def example_config_def example_stream_def)

end
